theory Spec2Isabelle
  imports Main "HOL-Library.Word" "HOL-Library.Sublist" "HOL-Library.Multiset"
begin

section \<open>Stream selection and dispatch of StreamsScreen.tsx\<close>

text \<open>
  The development embeds three pieces of \<^verbatim>\<open>src/screens/StreamsScreen.tsx\<close>:
  the callback \<^verbatim>\<open>handleStreamPress\<close> (the dispatcher), and the two memoised
  values \<^verbatim>\<open>sections\<close> and \<^verbatim>\<open>filterItems\<close> (the selector).
\<close>

subsection \<open>JavaScript strings\<close>

text \<open>
  A JavaScript string is a sequence of UTF-16 code units, any sequence: a surrogate need
  not be paired. \<open>js\<close> writes the string of an ASCII literal.
\<close>

type_synonym codeunit = "16 word"

type_synonym jsstring = "codeunit list"

definition cu :: "char \<Rightarrow> codeunit" where
  "cu c = of_nat (of_char c)"

definition js :: "string \<Rightarrow> jsstring" where
  "js s = map cu s"

subsection \<open>Data\<close>

text \<open>\<^verbatim>\<open>Platform.OS\<close>: the two values the dispatcher tests, and any other one.\<close>

datatype platform = IOS | Android | OtherOS

text \<open>The two settings the dispatcher reads.\<close>

record settings =
  useExternalPlayer :: bool
  preferredPlayer :: jsstring

text \<open>
  A \<^verbatim>\<open>Stream\<close>; \<open>url = None\<close> is an absent (\<^verbatim>\<open>undefined\<close>) url. The other
  fields of a stream are only passed on to the player.
\<close>

record stream =
  url :: "jsstring option"
  name :: "jsstring option"

text \<open>
  The reason a promise is rejected with, as far as the dispatcher looks at it. The
  \<^verbatim>\<open>.catch\<close> callback of an iOS candidate builds a log line from
  \<^verbatim>\<open>err.message\<close>: for the reason \<^verbatim>\<open>undefined\<close> or \<^verbatim>\<open>null\<close> (and for a
  reason whose \<^verbatim>\<open>message\<close> cannot be read and made a string) that throws a
  \<^verbatim>\<open>TypeError\<close>; this is \<open>Unreadable\<close>. Any other reason, such as an
  \<^verbatim>\<open>Error\<close> object, is \<open>WithMessage\<close>.
\<close>

datatype reason = WithMessage | Unreadable

text \<open>
  How one call of \<^verbatim>\<open>Linking.openURL\<close> ends: its promise resolves, its promise
  rejects with a reason, or the call throws before it returns a promise.
\<close>

datatype outcome = Resolves | Rejects reason | Throws

text \<open>
  What the dispatcher does to the outside, in order: a call of
  \<^verbatim>\<open>Linking.openURL\<close> with its argument, or a call of \<^verbatim>\<open>navigateToPlayer\<close>
  with the stream it is given.
\<close>

datatype action = OpenURL jsstring | NavigateToPlayer stream

text \<open>
  The platform's URL opener is a parameter of the dispatcher: the outcome of the
  \<open>n\<close>-th call of one dispatch (counted from 0) on the url it is given.
\<close>

type_synonym opener = "nat \<Rightarrow> jsstring \<Rightarrow> outcome"

subsection \<open>encodeURIComponent\<close>

text \<open>
  \<^verbatim>\<open>encodeURIComponent\<close> as ECMAScript defines it (the operation Encode with the
  unreserved set of URI components). ASCII letters, digits and
  \<^verbatim>\<open>- _ . ! ~ * ' ( )\<close> are left alone. Any other code unit is read as a code point,
  together with the next unit when the two are a surrogate pair; the octets of the UTF-8
  encoding of the code point become \<^verbatim>\<open>%XX\<close> each, with upper-case hexadecimal
  digits. An unpaired surrogate raises \<^verbatim>\<open>URIError\<close>.
\<close>

datatype jsError = URIError

definition uriUnescaped :: "codeunit \<Rightarrow> bool" where
  "uriUnescaped c \<longleftrightarrow>
     c \<in> set (js ''ABCDEFGHIJKLMNOPQRSTUVWXYZabcdefghijklmnopqrstuvwxyz0123456789-_.!~*()''
              @ [0x27])"

definition isLeadSurrogate :: "codeunit \<Rightarrow> bool" where
  "isLeadSurrogate c \<longleftrightarrow> 0xD800 \<le> unat c \<and> unat c \<le> 0xDBFF"

definition isTrailSurrogate :: "codeunit \<Rightarrow> bool" where
  "isTrailSurrogate c \<longleftrightarrow> 0xDC00 \<le> unat c \<and> unat c \<le> 0xDFFF"

definition hexDigit :: "nat \<Rightarrow> codeunit" where
  "hexDigit n = js ''0123456789ABCDEF'' ! (n mod 16)"

definition percentEncode :: "nat \<Rightarrow> jsstring" where
  "percentEncode octet = [cu CHR ''%'', hexDigit (octet div 16), hexDigit (octet mod 16)]"

text \<open>The octets of the UTF-8 encoding of a code point.\<close>

definition utf8 :: "nat \<Rightarrow> nat list" where
  "utf8 v =
     (if v < 0x80 then [v]
      else if v < 0x800 then [0xC0 + v div 0x40, 0x80 + v mod 0x40]
      else if v < 0x10000 then
        [0xE0 + v div 0x1000, 0x80 + v div 0x40 mod 0x40, 0x80 + v mod 0x40]
      else
        [0xF0 + v div 0x40000, 0x80 + v div 0x1000 mod 0x40,
         0x80 + v div 0x40 mod 0x40, 0x80 + v mod 0x40])"

definition escapeCodePoint :: "nat \<Rightarrow> jsstring" where
  "escapeCodePoint v = concat (map percentEncode (utf8 v))"

fun encodeURIComponent :: "jsstring \<Rightarrow> jsError + jsstring" where
  "encodeURIComponent [] = Inr []"
| "encodeURIComponent [c] =
     (if uriUnescaped c then Inr [c]
      else if isTrailSurrogate c \<or> isLeadSurrogate c then Inl URIError
      else Inr (escapeCodePoint (unat c)))"
| "encodeURIComponent (c # d # ds) =
     (if uriUnescaped c then
        (case encodeURIComponent (d # ds) of
           Inl e \<Rightarrow> Inl e
         | Inr r \<Rightarrow> Inr (c # r))
      else if isTrailSurrogate c then Inl URIError
      else if isLeadSurrogate c then
        (if isTrailSurrogate d then
           (case encodeURIComponent ds of
              Inl e \<Rightarrow> Inl e
            | Inr r \<Rightarrow>
                Inr (escapeCodePoint
                      ((unat c - 0xD800) * 0x400 + (unat d - 0xDC00) + 0x10000) @ r))
         else Inl URIError)
      else
        (case encodeURIComponent (d # ds) of
           Inl e \<Rightarrow> Inl e
         | Inr r \<Rightarrow> Inr (escapeCodePoint (unat c) @ r)))"

text \<open>
  A string is well formed when it has no unpaired surrogate: every leading surrogate is
  followed by a trailing one, and every trailing surrogate follows a leading one.
\<close>

fun wellFormed :: "jsstring \<Rightarrow> bool" where
  "wellFormed [] = True"
| "wellFormed [c] = (\<not> isLeadSurrogate c \<and> \<not> isTrailSurrogate c)"
| "wellFormed (c # d # ds) =
     (if isLeadSurrogate c then isTrailSurrogate d \<and> wellFormed ds
      else \<not> isTrailSurrogate c \<and> wellFormed (d # ds))"

subsection \<open>The dispatcher: handleStreamPress\<close>

text \<open>
  The \<^verbatim>\<open>switch\<close> on \<^verbatim>\<open>settings.preferredPlayer\<close> that fills
  \<^verbatim>\<open>externalPlayerUrls\<close> from \<^verbatim>\<open>stream.url\<close> and \<^verbatim>\<open>streamUrl\<close>, the
  encoded url; \<open>None\<close> is its \<^verbatim>\<open>default\<close> case, which plays internally and
  returns.
\<close>

definition externalPlayerUrls :: "jsstring \<Rightarrow> jsstring \<Rightarrow> jsstring \<Rightarrow> jsstring list option" where
  "externalPlayerUrls player u streamUrl =
     (if player = js ''vlc'' then
        Some [js ''vlc://'' @ u,
              js ''vlc-x-callback://x-callback-url/stream?url='' @ streamUrl,
              js ''vlc://'' @ streamUrl]
      else if player = js ''outplayer'' then
        Some [js ''outplayer://'' @ u,
              js ''outplayer://'' @ streamUrl,
              js ''outplayer://play?url='' @ streamUrl,
              js ''outplayer://stream?url='' @ streamUrl,
              js ''outplayer://play/browser?url='' @ streamUrl]
      else if player = js ''infuse'' then
        Some [js ''infuse://x-callback-url/play?url='' @ streamUrl,
              js ''infuse://play?url='' @ streamUrl,
              js ''infuse://'' @ streamUrl]
      else if player = js ''vidhub'' then
        Some [js ''vidhub://play?url='' @ streamUrl,
              js ''vidhub://'' @ streamUrl]
      else None)"

text \<open>
  \<^verbatim>\<open>tryNextUrl(index)\<close>. The result is the actions performed from this call on,
  and whether the call itself threw.

  Past the end of the list the raw url is opened; its \<^verbatim>\<open>.catch\<close> callback does not
  look at the reason and navigates to the player.

  For a candidate, the \<^verbatim>\<open>.catch\<close> callback first logs \<^verbatim>\<open>err.message\<close> and then
  calls \<^verbatim>\<open>tryNextUrl(index + 1)\<close>. With an unreadable reason the log line throws,
  inside the callback: the exception rejects a promise nobody observes, and nothing
  more happens. The same holds for an exception of the recursive call: it is not passed
  on to this call's caller.
\<close>

function tryNextUrl ::
  "opener \<Rightarrow> stream \<Rightarrow> jsstring \<Rightarrow> jsstring list \<Rightarrow> nat \<Rightarrow> action list \<times> bool" where
  "tryNextUrl openURL s u urls index =
     (if index \<ge> length urls then
        (case openURL index u of
           Throws \<Rightarrow> ([OpenURL u], True)
         | Resolves \<Rightarrow> ([OpenURL u], False)
         | Rejects r \<Rightarrow> ([OpenURL u, NavigateToPlayer s], False))
      else
        (case openURL index (urls ! index) of
           Throws \<Rightarrow> ([OpenURL (urls ! index)], True)
         | Resolves \<Rightarrow> ([OpenURL (urls ! index)], False)
         | Rejects Unreadable \<Rightarrow> ([OpenURL (urls ! index)], False)
         | Rejects WithMessage \<Rightarrow>
             (OpenURL (urls ! index) # fst (tryNextUrl openURL s u urls (index + 1)), False)))"
  by pat_completeness auto
termination
  by (relation "measure (\<lambda>(openURL, s, u, urls, index). length urls - index)") auto

declare tryNextUrl.simps [simp del]

text \<open>
  The iOS branch: the \<^verbatim>\<open>try\<close> block with \<^verbatim>\<open>encodeURIComponent(stream.url)\<close>,
  the switch and the first call \<^verbatim>\<open>tryNextUrl(0)\<close>. Its \<^verbatim>\<open>catch\<close> plays
  internally, for the \<^verbatim>\<open>URIError\<close> as for an exception of the first call.
\<close>

definition iosExternal :: "settings \<Rightarrow> opener \<Rightarrow> stream \<Rightarrow> jsstring \<Rightarrow> action list" where
  "iosExternal st openURL s u =
     (case encodeURIComponent u of
        Inl e \<Rightarrow> [NavigateToPlayer s]
      | Inr streamUrl \<Rightarrow>
          (case externalPlayerUrls (preferredPlayer st) u streamUrl of
             None \<Rightarrow> [NavigateToPlayer s]
           | Some urls \<Rightarrow>
               (case tryNextUrl openURL s u urls 0 of
                  (acts, threw) \<Rightarrow> if threw then acts @ [NavigateToPlayer s] else acts)))"

text \<open>The intent url of the Android branch, built from the url cut at its first \<^verbatim>\<open>?\<close>.\<close>

definition cleanUrl :: "jsstring \<Rightarrow> jsstring" where
  "cleanUrl u =
     (if cu CHR ''?'' \<in> set u then takeWhile (\<lambda>c. c \<noteq> cu CHR ''?'') u else u)"

definition intentUrl :: "jsstring \<Rightarrow> jsstring" where
  "intentUrl u =
     js ''intent:'' @ cleanUrl u @
     js ''#Intent;action=android.intent.action.VIEW;category=android.intent.category.DEFAULT;component=;type=video/*;launchFlags=0x10000000;end''"

definition isMagnet :: "jsstring \<Rightarrow> bool" where
  "isMagnet u \<longleftrightarrow> prefix (js ''magnet:'') u"

text \<open>
  The Android branch. The first call of \<^verbatim>\<open>Linking.openURL\<close> is inside the
  \<^verbatim>\<open>try\<close> block, whose \<^verbatim>\<open>catch\<close> plays internally; the second one is in a
  \<^verbatim>\<open>.catch\<close> callback. The callbacks of this branch only pass the reason to
  \<^verbatim>\<open>console.error\<close>.
\<close>

definition androidExternal :: "opener \<Rightarrow> stream \<Rightarrow> jsstring \<Rightarrow> action list" where
  "androidExternal openURL s u =
     (if isMagnet u then
        (case openURL 0 u of
           Resolves \<Rightarrow> [OpenURL u]
         | Rejects r \<Rightarrow> [OpenURL u, NavigateToPlayer s]
         | Throws \<Rightarrow> [OpenURL u, NavigateToPlayer s])
      else
        (case openURL 0 (intentUrl u) of
           Resolves \<Rightarrow> [OpenURL (intentUrl u)]
         | Throws \<Rightarrow> [OpenURL (intentUrl u), NavigateToPlayer s]
         | Rejects r \<Rightarrow>
             OpenURL (intentUrl u) #
               (case openURL 1 u of
                  Resolves \<Rightarrow> [OpenURL u]
                | Rejects r' \<Rightarrow> [OpenURL u, NavigateToPlayer s]
                | Throws \<Rightarrow> [OpenURL u])))"

text \<open>The two tests that choose the branch, in the order of the \<^verbatim>\<open>if\<close> chain.\<close>

datatype branch = IosExternal | AndroidExternal | Internal

definition dispatchBranch :: "platform \<Rightarrow> settings \<Rightarrow> branch" where
  "dispatchBranch os st =
     (if os = IOS \<and> preferredPlayer st \<noteq> js ''internal'' then IosExternal
      else if os = Android \<and> useExternalPlayer st then AndroidExternal
      else Internal)"

text \<open>
  \<^verbatim>\<open>handleStreamPress(stream)\<close>: the list of actions of one dispatch, in order.
  The guard \<^verbatim>\<open>if (stream.url)\<close> is false for an absent and for an empty url, and
  has no \<^verbatim>\<open>else\<close>. The logger and \<^verbatim>\<open>navigateToPlayer\<close> do not throw, so
  the outermost \<^verbatim>\<open>catch\<close> is never entered.
\<close>

definition handleStreamPress ::
  "platform \<Rightarrow> settings \<Rightarrow> opener \<Rightarrow> stream \<Rightarrow> action list" where
  "handleStreamPress os st openURL s =
     (case url s of
        None \<Rightarrow> []
      | Some u \<Rightarrow>
          if u = [] then []
          else
            (case dispatchBranch os st of
               IosExternal \<Rightarrow> iosExternal st openURL s u
             | AndroidExternal \<Rightarrow> androidExternal openURL s u
             | Internal \<Rightarrow> [NavigateToPlayer s]))"

text \<open>The urls a list of actions hands to \<^verbatim>\<open>Linking.openURL\<close>, in order.\<close>

fun attempted :: "action list \<Rightarrow> jsstring list" where
  "attempted [] = []"
| "attempted (OpenURL c # acts) = c # attempted acts"
| "attempted (NavigateToPlayer s # acts) = attempted acts"

text \<open>
  Two openers: on the first every promise rejects with an \<^verbatim>\<open>Error\<close>; on the second
  every promise rejects with \<^verbatim>\<open>undefined\<close>.
\<close>

definition rejectAll :: opener where
  "rejectAll n c = Rejects WithMessage"

definition rejectUndefined :: opener where
  "rejectUndefined n c = Rejects Unreadable"

subsection \<open>The selector: sections and filterItems\<close>

text \<open>
  An installed addon, as \<^verbatim>\<open>stremioService.getInstalledAddons()\<close> returns it: the
  fields \<^verbatim>\<open>id\<close> and \<^verbatim>\<open>name\<close> of its manifest.
\<close>

record manifest =
  manifestId :: jsstring
  manifestName :: jsstring

text \<open>One value of the aggregated mapping: \<^verbatim>\<open>{ addonName, streams }\<close>.\<close>

record providerGroup =
  addonName :: jsstring
  streams :: "stream list"

text \<open>One element of \<^verbatim>\<open>sections\<close>: \<^verbatim>\<open>{ title, addonId, data }\<close>.\<close>

record sectionItem =
  title :: jsstring
  addonId :: jsstring
  data :: "stream list"

text \<open>\<^verbatim>\<open>Array.prototype.findIndex\<close>: the first index whose element passes, or -1.\<close>

fun findIndex :: "('a \<Rightarrow> bool) \<Rightarrow> 'a list \<Rightarrow> int" where
  "findIndex P [] = - 1"
| "findIndex P (x # xs) =
     (if P x then 0
      else (let i = findIndex P xs in if i = - 1 then - 1 else i + 1))"

text \<open>The comparator both sorts are given, on two provider ids.\<close>

definition compareProviders :: "manifest list \<Rightarrow> jsstring \<Rightarrow> jsstring \<Rightarrow> int" where
  "compareProviders installedAddons a b =
     (let indexA = findIndex (\<lambda>addon. manifestId addon = a) installedAddons;
          indexB = findIndex (\<lambda>addon. manifestId addon = b) installedAddons
      in if indexA \<noteq> - 1 \<and> indexB \<noteq> - 1 then indexA - indexB
         else if indexA \<noteq> - 1 then - 1
         else if indexB \<noteq> - 1 then 1
         else 0)"

text \<open>
  \<^verbatim>\<open>Array.prototype.sort(compare)\<close>. The language requires the sort to be stable
  (ECMAScript 2019): it is modelled as the stable insertion sort, which puts an element
  before the first one it does not compare greater than.
\<close>

fun insertBy :: "('a \<Rightarrow> 'a \<Rightarrow> int) \<Rightarrow> 'a \<Rightarrow> 'a list \<Rightarrow> 'a list" where
  "insertBy cmp x [] = [x]"
| "insertBy cmp x (y # ys) = (if cmp x y \<le> 0 then x # y # ys else y # insertBy cmp x ys)"

definition sortBy :: "('a \<Rightarrow> 'a \<Rightarrow> int) \<Rightarrow> 'a list \<Rightarrow> 'a list" where
  "sortBy cmp xs = foldr (insertBy cmp) xs []"

text \<open>
  \<^verbatim>\<open>sections\<close>. The aggregated mapping is given by its entries in the order of
  \<^verbatim>\<open>Object.entries(streams)\<close>, a list of pairs of a provider id and its group.
\<close>

definition toSection :: "jsstring \<times> providerGroup \<Rightarrow> sectionItem" where
  "toSection e = \<lparr>title = addonName (snd e), addonId = fst e, data = streams (snd e)\<rparr>"

definition sections ::
  "manifest list \<Rightarrow> jsstring \<Rightarrow> (jsstring \<times> providerGroup) list \<Rightarrow> sectionItem list" where
  "sections installedAddons selectedProvider entries =
     map toSection
       (sortBy (\<lambda>a b. compareProviders installedAddons (fst a) (fst b))
          (filter (\<lambda>e. if selectedProvider = js ''all'' then True else fst e = selectedProvider)
             entries))"

text \<open>
  \<^verbatim>\<open>filterItems\<close>: pairs of an id and a display name. \<^verbatim>\<open>availableProviders\<close> is
  a \<^verbatim>\<open>Set\<close> of provider ids, given as the list \<^verbatim>\<open>Array.from\<close> makes of it.
\<close>

definition displayName ::
  "manifest list \<Rightarrow> (jsstring \<times> providerGroup) list \<Rightarrow> jsstring \<Rightarrow> jsstring" where
  "displayName installedAddons entries provider =
     (case find (\<lambda>addon. manifestId addon = provider) installedAddons of
        Some installedAddon \<Rightarrow> manifestName installedAddon
      | None \<Rightarrow>
          (case map_of entries provider of
             Some addonInfo \<Rightarrow>
               if addonName addonInfo \<noteq> [] then addonName addonInfo else provider
           | None \<Rightarrow> provider))"

definition filterItems ::
  "manifest list \<Rightarrow> jsstring list \<Rightarrow> (jsstring \<times> providerGroup) list
     \<Rightarrow> (jsstring \<times> jsstring) list" where
  "filterItems installedAddons availableProviders entries =
     (js ''all'', js ''All Providers'') #
     map (\<lambda>provider. (provider, displayName installedAddons entries provider))
       (sortBy (compareProviders installedAddons) availableProviders)"

text \<open>What the comparator computes for one provider id.\<close>

definition installedIndex :: "manifest list \<Rightarrow> jsstring \<Rightarrow> int" where
  "installedIndex installedAddons a = findIndex (\<lambda>addon. manifestId addon = a) installedAddons"

subsection \<open>The ordering rule of the specification\<close>

text \<open>
  The notions of the specification, defined on the installed list itself and not through
  \<^verbatim>\<open>findIndex\<close>: a provider is present in the installed list when its id is the id
  of one of the installed addons, and its position there is the number of addons in
  front of the first one with its id.
\<close>

definition presentIn :: "manifest list \<Rightarrow> jsstring \<Rightarrow> bool" where
  "presentIn installedAddons a \<longleftrightarrow> a \<in> set (map manifestId installedAddons)"

definition positionIn :: "manifest list \<Rightarrow> jsstring \<Rightarrow> nat" where
  "positionIn installedAddons a =
     length (takeWhile (\<lambda>addon. manifestId addon \<noteq> a) installedAddons)"

text \<open>
  The ordering rule, for the provider ids \<open>ids\<close> in encounter order and their
  arrangement \<open>out\<close>: \<open>out\<close> holds the same ids; the providers present in the
  installed list come first; they are sorted by their position in that list; the
  providers absent from it keep their encounter order.
\<close>

definition installedFirst :: "manifest list \<Rightarrow> jsstring list \<Rightarrow> jsstring list \<Rightarrow> bool" where
  "installedFirst installedAddons ids out \<longleftrightarrow>
     mset out = mset ids
     \<and> out = filter (presentIn installedAddons) out
             @ filter (\<lambda>a. \<not> presentIn installedAddons a) out
     \<and> sorted (map (positionIn installedAddons) (filter (presentIn installedAddons) out))
     \<and> filter (\<lambda>a. \<not> presentIn installedAddons a) out
         = filter (\<lambda>a. \<not> presentIn installedAddons a) ids"

text \<open>
  The sort key behind the comparator: the position of a present provider, and the
  length of the installed list for every absent one.
\<close>

definition providerRank :: "manifest list \<Rightarrow> jsstring \<Rightarrow> nat" where
  "providerRank installedAddons a =
     (if presentIn installedAddons a then positionIn installedAddons a
      else length installedAddons)"

text \<open>
  A candidate carries a url when the url, raw or percent-encoded, occurs in it unchanged
  as a contiguous part.
\<close>

definition carriesUrl :: "jsstring \<Rightarrow> jsstring \<Rightarrow> bool" where
  "carriesUrl u c \<longleftrightarrow>
     sublist u c \<or> (case encodeURIComponent u of Inl e \<Rightarrow> False | Inr enc \<Rightarrow> sublist enc c)"

section \<open>Properties of strings and of the encoding\<close>

lemma unat_cu: "unat (cu c) = of_char c"
proof -
  have "(of_char c :: nat) < 256" by (rule nat_of_char_less_256)
  also have "(256::nat) < 2 ^ 16" by simp
  finally have "(of_char c :: nat) < 2 ^ 16" .
  then show ?thesis by (simp add: cu_def unat_of_nat)
qed

lemma cu_eq_iff [simp]: "cu a = cu b \<longleftrightarrow> a = b"
proof
  assume "cu a = cu b"
  then have "unat (cu a) = unat (cu b)" by simp
  then show "a = b" by (simp add: unat_cu)
qed simp

lemma js_eq_iff [simp]: "js a = js b \<longleftrightarrow> a = b"
  by (auto simp: js_def list_eq_iff_nth_eq)

lemma length_js [simp]: "length (js s) = length s"
  by (simp add: js_def)

lemma js_Nil [simp]: "js [] = []"
  by (simp add: js_def)

lemma js_Cons: "js (c # s) = cu c # js s"
  by (simp add: js_def)

lemma js_eq_Nil_iff [simp]: "js s = [] \<longleftrightarrow> s = []"
  by (simp add: js_def)

lemma cu_in_js [simp]: "cu c \<in> set (js s) \<longleftrightarrow> c \<in> set s"
  by (auto simp: js_def)

lemma length_percentEncode [simp]: "length (percentEncode b) = 3"
  by (simp add: percentEncode_def)





lemma not_surrogate_cu [simp]: "\<not> isLeadSurrogate (cu c)" "\<not> isTrailSurrogate (cu c)"
  unfolding isLeadSurrogate_def isTrailSurrogate_def unat_cu
  using nat_of_char_less_256 [of c] by linarith+

lemma apostrophe: "(0x27 :: codeunit) = cu (CHR 0x27)"
  by (simp add: cu_def)

lemma uriUnescaped_cu:
  "uriUnescaped (cu c) \<longleftrightarrow>
     c \<in> set (''ABCDEFGHIJKLMNOPQRSTUVWXYZabcdefghijklmnopqrstuvwxyz0123456789-_.!~*()''
               @ [CHR 0x27])"
  unfolding uriUnescaped_def apostrophe
  by (simp only: set_append set_simps Un_iff cu_in_js cu_eq_iff insert_iff empty_iff)

lemma hexDigit_cu: "hexDigit n = cu (''0123456789ABCDEF'' ! (n mod 16))"
  unfolding hexDigit_def js_def by (rule nth_map) simp

lemma escape_ascii:
  "escapeCodePoint (unat (cu c)) =
     (if (of_char c :: nat) < 0x80
      then [cu CHR ''%'', cu (''0123456789ABCDEF'' ! (of_char c div 16 mod 16)),
            cu (''0123456789ABCDEF'' ! (of_char c mod 16))]
      else escapeCodePoint (of_char c))"
  by (simp add: escapeCodePoint_def utf8_def percentEncode_def hexDigit_cu unat_cu)

lemma encode_cu:
  "encodeURIComponent (cu c # cs) =
     (case encodeURIComponent cs of
        Inl e \<Rightarrow> Inl e
      | Inr r \<Rightarrow> Inr ((if uriUnescaped (cu c) then [cu c] else escapeCodePoint (unat (cu c))) @ r))"
  by (cases cs) (simp_all split: sum.split)

lemmas js_eval = js_Cons encode_cu uriUnescaped_cu escape_ascii

lemma unescaped_chars_ascii:
  "\<forall>ch \<in> set (''ABCDEFGHIJKLMNOPQRSTUVWXYZabcdefghijklmnopqrstuvwxyz0123456789-_.!~*()''
               @ [CHR 0x27]). (of_char ch :: nat) < 128"
  by simp

lemma unescaped_units:
  "js ''ABCDEFGHIJKLMNOPQRSTUVWXYZabcdefghijklmnopqrstuvwxyz0123456789-_.!~*()'' @ [0x27]
   = map cu (''ABCDEFGHIJKLMNOPQRSTUVWXYZabcdefghijklmnopqrstuvwxyz0123456789-_.!~*()''
               @ [CHR 0x27])"
  unfolding js_def apostrophe by (simp only: map_append list.map)

lemma uriUnescaped_ascii: "uriUnescaped c \<Longrightarrow> unat c < 128"
proof -
  assume "uriUnescaped c"
  then have "c \<in> cu ` set (''ABCDEFGHIJKLMNOPQRSTUVWXYZabcdefghijklmnopqrstuvwxyz0123456789-_.!~*()''
               @ [CHR 0x27])"
    unfolding uriUnescaped_def unescaped_units by (simp only: set_map)
  then obtain ch where ch: "c = cu ch"
    and m: "ch \<in> set (''ABCDEFGHIJKLMNOPQRSTUVWXYZabcdefghijklmnopqrstuvwxyz0123456789-_.!~*()''
               @ [CHR 0x27])"
    by (rule imageE)
  from unescaped_chars_ascii m have "(of_char ch :: nat) < 128" by (rule bspec)
  with ch show ?thesis by (simp only: unat_cu)
qed

lemma not_unescaped_high: "128 \<le> unat c \<Longrightarrow> uriUnescaped c = False"
  using uriUnescaped_ascii [of c] by auto

lemmas unit_eval = isLeadSurrogate_def isTrailSurrogate_def not_unescaped_high
  escapeCodePoint_def utf8_def percentEncode_def hexDigit_cu js_Cons

lemma unescaped_not_surrogate:
  "uriUnescaped c \<Longrightarrow> \<not> isLeadSurrogate c \<and> \<not> isTrailSurrogate c"
  using uriUnescaped_ascii [of c] by (auto simp: isLeadSurrogate_def isTrailSurrogate_def)

lemma lead_not_trail: "isLeadSurrogate c \<Longrightarrow> \<not> isTrailSurrogate c"
  by (auto simp: isLeadSurrogate_def isTrailSurrogate_def)

text \<open>\<^verbatim>\<open>encodeURIComponent\<close> throws exactly on the strings with an unpaired surrogate.\<close>

lemma encodeURIComponent_accepts:
  "(\<exists>e. encodeURIComponent u = Inr e) \<longleftrightarrow> wellFormed u"
proof (induction u rule: encodeURIComponent.induct)
  case 1
  show ?case by simp
next
  case (2 c)
  show ?case using unescaped_not_surrogate [of c] by auto
next
  case (3 c d ds)
  show ?case
  proof (cases "uriUnescaped c")
    case True
    with 3(1) unescaped_not_surrogate [of c] show ?thesis
      by (auto split: sum.splits)
  next
    case nu: False
    show ?thesis
    proof (cases "isLeadSurrogate c")
      case True
      with nu 3(2) lead_not_trail [of c] show ?thesis
        by (auto split: sum.splits)
    next
      case False
      with nu 3(3) show ?thesis
        by (auto split: sum.splits)
    qed
  qed
qed

text \<open>
  The encoding on an ASCII url, on a two-octet and a three-octet code point, on a
  surrogate pair, and on unpaired surrogates.
\<close>

lemma encodeURIComponent_examples:
  "encodeURIComponent (js ''https://example/video.mp4?a=1 ~'')
     = Inr (js ''https%3A%2F%2Fexample%2Fvideo.mp4%3Fa%3D1%20~'')"
  "encodeURIComponent [0xE9] = Inr (js ''%C3%A9'')"
  "encodeURIComponent [0x20AC] = Inr (js ''%E2%82%AC'')"
  "encodeURIComponent [0xD83D, 0xDE00] = Inr (js ''%F0%9F%98%80'')"
  "encodeURIComponent [0xD83D] = Inl URIError"
  "encodeURIComponent [0xDE00, 0xD83D] = Inl URIError"
  "encodeURIComponent (cu CHR ''a'' # 0xD83D # js ''b'') = Inl URIError"
proof -
  show "encodeURIComponent (js ''https://example/video.mp4?a=1 ~'')
     = Inr (js ''https%3A%2F%2Fexample%2Fvideo.mp4%3Fa%3D1%20~'')"
    by (simp add: js_eval)
  show "encodeURIComponent [0xE9] = Inr (js ''%C3%A9'')"
    by (simp add: unit_eval)
  show "encodeURIComponent [0x20AC] = Inr (js ''%E2%82%AC'')"
    by (simp add: unit_eval)
  show "encodeURIComponent [0xD83D, 0xDE00] = Inr (js ''%F0%9F%98%80'')"
    by (simp add: unit_eval)
  show "encodeURIComponent [0xD83D] = Inl URIError"
    by (simp add: isLeadSurrogate_def isTrailSurrogate_def not_unescaped_high)
  show "encodeURIComponent [0xDE00, 0xD83D] = Inl URIError"
    by (simp add: isLeadSurrogate_def isTrailSurrogate_def not_unescaped_high)
  show "encodeURIComponent (cu CHR ''a'' # 0xD83D # js ''b'') = Inl URIError"
    by (simp add: js_eval isLeadSurrogate_def not_unescaped_high)
qed

section \<open>Properties of the dispatcher\<close>

subsection \<open>The chain of attempts\<close>

lemma tryNextUrl_rejectAll:
  "tryNextUrl rejectAll s u urls i =
     (map OpenURL (drop i urls) @ [OpenURL u, NavigateToPlayer s], False)"
proof (induction "length urls - i" arbitrary: i)
  case 0
  then show ?case by (subst tryNextUrl.simps) (simp add: rejectAll_def)
next
  case (Suc n)
  then have lt: "i < length urls" and n: "n = length urls - Suc i" by simp_all
  from lt have "drop i urls = urls ! i # drop (Suc i) urls"
    by (simp add: Cons_nth_drop_Suc)
  with lt Suc(1) [OF n] show ?case
    by (subst tryNextUrl.simps) (simp add: rejectAll_def)
qed

lemma attempted_append [simp]: "attempted (xs @ ys) = attempted xs @ attempted ys"
  by (induction xs rule: attempted.induct) auto

lemma attempted_map_OpenURL [simp]: "attempted (map OpenURL cs) = cs"
  by (induction cs) auto

lemma attempted_tryNextUrl_prefix:
  "i \<le> length urls \<Longrightarrow>
   prefix (attempted (fst (tryNextUrl openURL s u urls i))) (drop i (urls @ [u]))"
proof (induction openURL s u urls i rule: tryNextUrl.induct)
  case (1 openURL s u urls index)
  show ?case
  proof (cases "length urls \<le> index")
    case True
    with 1(2) have "index = length urls" by simp
    then show ?thesis
      by (subst tryNextUrl.simps) (simp split: outcome.split)
  next
    case False
    then have d: "drop index (urls @ [u]) = urls ! index # drop (Suc index) (urls @ [u])"
      by (simp add: Cons_nth_drop_Suc [symmetric] nth_append)
    show ?thesis
    proof (cases "openURL index (urls ! index) = Rejects WithMessage")
      case True
      with False 1 d show ?thesis by (subst tryNextUrl.simps) simp
    next
      case other: False
      with False d show ?thesis
        by (subst tryNextUrl.simps) (simp split: outcome.split reason.split)
    qed
  qed
qed

lemma attempted_tryNextUrl_rejected:
  "i \<le> length urls \<Longrightarrow> Suc k < length (attempted (fst (tryNextUrl openURL s u urls i))) \<Longrightarrow>
   openURL (i + k) ((urls @ [u]) ! (i + k)) = Rejects WithMessage"
proof (induction openURL s u urls i arbitrary: k rule: tryNextUrl.induct)
  case (1 openURL s u urls index)
  show ?case
  proof (cases "length urls \<le> index")
    case True
    with 1(3) show ?thesis
      by (subst (asm) tryNextUrl.simps) (simp split: outcome.splits)
  next
    case False
    show ?thesis
    proof (cases "openURL index (urls ! index) = Rejects WithMessage")
      case True
      show ?thesis
      proof (cases k)
        case 0
        with True False show ?thesis by (simp add: nth_append)
      next
        case (Suc k')
        with 1(3) False True
        have "Suc k' < length (attempted (fst (tryNextUrl openURL s u urls (index + 1))))"
          by (subst (asm) tryNextUrl.simps) simp
        with 1(1) [of WithMessage k'] False True Suc show ?thesis by simp
      qed
    next
      case other: False
      with False 1(3) show ?thesis
        by (subst (asm) tryNextUrl.simps) (simp split: outcome.splits reason.splits)
    qed
  qed
qed

subsection \<open>The scheme table\<close>

lemma externalPlayerUrls_cases:
  assumes "externalPlayerUrls p u e = Some urls"
  obtains
    "p = js ''vlc''"
    "urls = [js ''vlc://'' @ u,
             js ''vlc-x-callback://x-callback-url/stream?url='' @ e,
             js ''vlc://'' @ e]"
  | "p = js ''outplayer''"
    "urls = [js ''outplayer://'' @ u,
             js ''outplayer://'' @ e,
             js ''outplayer://play?url='' @ e,
             js ''outplayer://stream?url='' @ e,
             js ''outplayer://play/browser?url='' @ e]"
  | "p = js ''infuse''"
    "urls = [js ''infuse://x-callback-url/play?url='' @ e,
             js ''infuse://play?url='' @ e,
             js ''infuse://'' @ e]"
  | "p = js ''vidhub''"
    "urls = [js ''vidhub://play?url='' @ e,
             js ''vidhub://'' @ e]"
  using assms unfolding externalPlayerUrls_def
  by (auto split: if_splits)

lemma externalPlayerUrls_None:
  "externalPlayerUrls p u e = None \<longleftrightarrow>
     p \<notin> {js ''vlc'', js ''outplayer'', js ''infuse'', js ''vidhub''}"
  by (simp add: externalPlayerUrls_def)

lemma externalPlayerUrls_internal: "externalPlayerUrls (js ''internal'') u e = None"
  by (simp add: externalPlayerUrls_def)



lemma template_suffix:
  assumes "externalPlayerUrls p u e = Some urls" "c \<in> set urls"
  shows "suffix u c \<or> suffix e c"
  using assms(1)
proof (cases rule: externalPlayerUrls_cases)
  case 1
  with assms(2) show ?thesis by (auto simp: suffix_def)
next
  case 2
  with assms(2) show ?thesis by (auto simp: suffix_def)
next
  case 3
  with assms(2) show ?thesis by (auto simp: suffix_def)
next
  case 4
  with assms(2) show ?thesis by (auto simp: suffix_def)
qed

subsection \<open>The branches of handleStreamPress\<close>

lemma handleStreamPress_ios:
  assumes "url s = Some u" "u \<noteq> []" "encodeURIComponent u = Inr e"
    and "externalPlayerUrls (preferredPlayer st) u e = Some urls"
  shows "handleStreamPress IOS st openURL s =
    (case tryNextUrl openURL s u urls 0 of
       (acts, threw) \<Rightarrow> if threw then acts @ [NavigateToPlayer s] else acts)"
proof -
  from assms(4) have "preferredPlayer st \<noteq> js ''internal''"
    by (auto simp: externalPlayerUrls_internal)
  with assms show ?thesis
    by (simp add: handleStreamPress_def dispatchBranch_def iosExternal_def)
qed

lemma attempted_handleStreamPress_ios:
  assumes "url s = Some u" "u \<noteq> []" "encodeURIComponent u = Inr e"
    and "externalPlayerUrls (preferredPlayer st) u e = Some urls"
  shows "attempted (handleStreamPress IOS st openURL s) =
    attempted (fst (tryNextUrl openURL s u urls 0))"
  by (simp add: handleStreamPress_ios [OF assms] split: prod.split)

lemma handleStreamPress_ios_rejectAll:
  assumes "url s = Some u" "u \<noteq> []" "encodeURIComponent u = Inr e"
    and "externalPlayerUrls (preferredPlayer st) u e = Some urls"
  shows "handleStreamPress IOS st rejectAll s = map OpenURL urls @ [OpenURL u, NavigateToPlayer s]"
  by (simp add: handleStreamPress_ios [OF assms] tryNextUrl_rejectAll)

lemma handleStreamPress_android:
  assumes "url s = Some u" "u \<noteq> []" "useExternalPlayer st"
  shows "handleStreamPress Android st openURL s = androidExternal openURL s u"
  using assms by (simp add: handleStreamPress_def dispatchBranch_def)

lemma handleStreamPress_internal:
  assumes "url s = Some u" "u \<noteq> []" "dispatchBranch os st = Internal"
  shows "handleStreamPress os st openURL s = [NavigateToPlayer s]"
  using assms by (simp add: handleStreamPress_def)

lemma handleStreamPress_ios_direct:
  assumes "url s = Some u" "u \<noteq> []"
    and "case encodeURIComponent u of
           Inl x \<Rightarrow> True
         | Inr e \<Rightarrow> externalPlayerUrls (preferredPlayer st) u e = None"
  shows "handleStreamPress IOS st openURL s = [NavigateToPlayer s]"
  using assms
  by (auto simp: handleStreamPress_def dispatchBranch_def iosExternal_def split: sum.splits)

lemma hd_handleStreamPress_ios_vlc:
  assumes "url s = Some (x # xs)" and "preferredPlayer st = js ''vlc''"
  shows "hd (handleStreamPress IOS st openURL s) =
     (case encodeURIComponent (x # xs) of
        Inl e \<Rightarrow> NavigateToPlayer s
      | Inr enc \<Rightarrow> OpenURL (js ''vlc://'' @ x # xs))"
proof (cases "encodeURIComponent (x # xs)")
  case (Inl e)
  then have "case encodeURIComponent (x # xs) of
           Inl x \<Rightarrow> True
         | Inr e \<Rightarrow> externalPlayerUrls (preferredPlayer st) (x # xs) e = None"
    by simp
  with assms(1) have "handleStreamPress IOS st openURL s = [NavigateToPlayer s]"
    by (intro handleStreamPress_ios_direct) simp_all
  with Inl show ?thesis by simp
next
  case (Inr e)
  have t: "externalPlayerUrls (preferredPlayer st) (x # xs) e =
      Some [js ''vlc://'' @ x # xs,
            js ''vlc-x-callback://x-callback-url/stream?url='' @ e,
            js ''vlc://'' @ e]"
    using assms(2) by (simp add: externalPlayerUrls_def)
  have n: "x # xs \<noteq> []" by simp
  show ?thesis
    unfolding handleStreamPress_ios [OF assms(1) n Inr t]
    by (simp add: Inr tryNextUrl.simps [of _ _ _ _ 0] split: outcome.split reason.split)
qed


lemma cleanUrl_takeWhile: "cleanUrl u = takeWhile (\<lambda>c. c \<noteq> cu CHR ''?'') u"
proof (cases "cu CHR ''?'' \<in> set u")
  case True
  then show ?thesis by (simp add: cleanUrl_def)
next
  case False
  then have "takeWhile (\<lambda>c. c \<noteq> cu CHR ''?'') u = u"
    by (intro takeWhile_eq_all_conv [THEN iffD2]) auto
  with False show ?thesis by (simp only: cleanUrl_def if_False)
qed

lemma cleanUrl_no_query: "cu CHR ''?'' \<notin> set (cleanUrl u)"
  by (auto simp: cleanUrl_takeWhile dest: set_takeWhileD)

lemma intentUrl_no_query: "cu CHR ''?'' \<notin> set (intentUrl u)"
  using cleanUrl_no_query [of u] by (simp add: intentUrl_def)

lemma intentUrl_neq: "intentUrl u \<noteq> u"
proof (cases "cu CHR ''?'' \<in> set u")
  case True
  with intentUrl_no_query [of u] show ?thesis by metis
next
  case False
  then have "cleanUrl u = u" by (simp add: cleanUrl_def)
  then have "length (intentUrl u) > length u" by (simp add: intentUrl_def)
  then show ?thesis by auto
qed

lemma attempted_androidExternal:
  "set (attempted (androidExternal openURL s u)) \<subseteq> {u, intentUrl u}"
  by (auto simp: androidExternal_def split: outcome.splits if_splits)

lemma hd_androidExternal:
  "hd (androidExternal openURL s u) = OpenURL (if isMagnet u then u else intentUrl u)"
  by (simp add: androidExternal_def split: outcome.split)



lemmas dispatch_eval = handleStreamPress_def dispatchBranch_def iosExternal_def
  externalPlayerUrls_def androidExternal_def intentUrl_def cleanUrl_def isMagnet_def
  rejectAll_def rejectUndefined_def js_eval

section \<open>The claims about the dispatcher\<close>




text \<open>
  C2, as amended. On iOS with the preferred player \<^verbatim>\<open>vlc\<close> and a stream url \<open>u\<close>
  that is not empty and that \<^verbatim>\<open>encodeURIComponent\<close> accepts, with the result
  \<open>e\<close>: the candidate list is the three urls \<^verbatim>\<open>vlc://\<close>\<open>u\<close>,
  \<^verbatim>\<open>vlc-x-callback://x-callback-url/stream?url=\<close>\<open>e\<close> and \<^verbatim>\<open>vlc://\<close>\<open>e\<close>; when
  every call is rejected with a reason whose message can be read, the dispatch opens
  them in this order, then the raw url, then plays internally; and whatever the opener
  answers, the urls it is asked to open are an initial part of these four, in this
  order, each one after the first opened only when the one before it was rejected with
  such a reason.
\<close>

theorem ios_vlc_candidates:
  assumes "url s = Some u" and "u \<noteq> []" and "preferredPlayer st = js ''vlc''"
    and "encodeURIComponent u = Inr e"
  shows "externalPlayerUrls (preferredPlayer st) u e =
           Some [js ''vlc://'' @ u,
                 js ''vlc-x-callback://x-callback-url/stream?url='' @ e,
                 js ''vlc://'' @ e]
         \<and> handleStreamPress IOS st rejectAll s =
             [OpenURL (js ''vlc://'' @ u),
              OpenURL (js ''vlc-x-callback://x-callback-url/stream?url='' @ e),
              OpenURL (js ''vlc://'' @ e),
              OpenURL u,
              NavigateToPlayer s]
         \<and> prefix (attempted (handleStreamPress IOS st openURL s))
             [js ''vlc://'' @ u,
              js ''vlc-x-callback://x-callback-url/stream?url='' @ e,
              js ''vlc://'' @ e,
              u]
         \<and> (\<forall>i. Suc i < length (attempted (handleStreamPress IOS st openURL s)) \<longrightarrow>
                openURL i
                  ([js ''vlc://'' @ u,
                    js ''vlc-x-callback://x-callback-url/stream?url='' @ e,
                    js ''vlc://'' @ e,
                    u] ! i) = Rejects WithMessage)"
proof -
  let ?urls = "[js ''vlc://'' @ u,
                js ''vlc-x-callback://x-callback-url/stream?url='' @ e,
                js ''vlc://'' @ e]"
  have t: "externalPlayerUrls (preferredPlayer st) u e = Some ?urls"
    using assms(3) by (simp add: externalPlayerUrls_def)
  have r: "handleStreamPress IOS st rejectAll s = map OpenURL ?urls @ [OpenURL u, NavigateToPlayer s]"
    using assms(1,2,4) t by (rule handleStreamPress_ios_rejectAll)
  have a: "attempted (handleStreamPress IOS st openURL s) =
             attempted (fst (tryNextUrl openURL s u ?urls 0))"
    using assms(1,2,4) t by (rule attempted_handleStreamPress_ios)
  have "prefix (attempted (fst (tryNextUrl openURL s u ?urls 0))) (drop 0 (?urls @ [u]))"
    by (rule attempted_tryNextUrl_prefix) simp
  then have p: "prefix (attempted (handleStreamPress IOS st openURL s)) (?urls @ [u])"
    by (simp add: a)
  have o: "\<forall>i. Suc i < length (attempted (handleStreamPress IOS st openURL s)) \<longrightarrow>
                openURL i ((?urls @ [u]) ! i) = Rejects WithMessage"
    using attempted_tryNextUrl_rejected [of 0 ?urls _ openURL s u] by (simp add: a)
  from t r p o show ?thesis by simp
qed

theorem ios_vlc_candidates_witness:
  "handleStreamPress IOS \<lparr>useExternalPlayer = True, preferredPlayer = js ''vlc''\<rparr> rejectAll
     \<lparr>url = Some (js ''https://example/video.mp4''), name = None\<rparr> =
   [OpenURL (js ''vlc://https://example/video.mp4''),
    OpenURL (js ''vlc-x-callback://x-callback-url/stream?url=https%3A%2F%2Fexample%2Fvideo.mp4''),
    OpenURL (js ''vlc://https%3A%2F%2Fexample%2Fvideo.mp4''),
    OpenURL (js ''https://example/video.mp4''),
    NavigateToPlayer \<lparr>url = Some (js ''https://example/video.mp4''), name = None\<rparr>]
   \<and> rejectAll 0 (js ''vlc://https://example/video.mp4'') = Rejects WithMessage"
proof -
  have e: "encodeURIComponent (js ''https://example/video.mp4'')
             = Inr (js ''https%3A%2F%2Fexample%2Fvideo.mp4'')"
    by (simp add: js_eval)
  have u: "url \<lparr>url = Some (js ''https://example/video.mp4''), name = None\<rparr>
             = Some (js ''https://example/video.mp4'')"
    and n: "js ''https://example/video.mp4'' \<noteq> []"
    and p: "preferredPlayer \<lparr>useExternalPlayer = True, preferredPlayer = js ''vlc''\<rparr> = js ''vlc''"
    by simp_all
  note t = ios_vlc_candidates [OF u n p e, of rejectAll]
  from t have l: "Suc 0 < length (attempted (handleStreamPress IOS
       \<lparr>useExternalPlayer = True, preferredPlayer = js ''vlc''\<rparr> rejectAll
       \<lparr>url = Some (js ''https://example/video.mp4''), name = None\<rparr>))"
    by simp
  from t l show ?thesis by (simp add: js_Cons rejectAll_def)
qed

text \<open>
  C2 as stated is about any stream url. For the empty url nothing is attempted and
  there is no internal playback. For a url with an unpaired surrogate
  \<^verbatim>\<open>encodeURIComponent\<close> throws, no candidate is built and the dispatch is the
  internal playback alone. And after a rejection with the reason \<^verbatim>\<open>undefined\<close> the
  first candidate is the only action.
\<close>

theorem ios_vlc_url_counterexample:
  "handleStreamPress IOS \<lparr>useExternalPlayer = True, preferredPlayer = js ''vlc''\<rparr>
      rejectAll \<lparr>url = Some [], name = None\<rparr> = []
   \<and> encodeURIComponent [0xD83D] = Inl URIError
   \<and> handleStreamPress IOS \<lparr>useExternalPlayer = True, preferredPlayer = js ''vlc''\<rparr>
      rejectAll \<lparr>url = Some [0xD83D], name = None\<rparr>
      = [NavigateToPlayer \<lparr>url = Some [0xD83D], name = None\<rparr>]
   \<and> handleStreamPress IOS \<lparr>useExternalPlayer = True, preferredPlayer = js ''vlc''\<rparr>
      rejectUndefined \<lparr>url = Some (js ''https://example/video.mp4''), name = None\<rparr>
      = [OpenURL (js ''vlc://https://example/video.mp4'')]"
proof -
  have a: "handleStreamPress IOS \<lparr>useExternalPlayer = True, preferredPlayer = js ''vlc''\<rparr>
      rejectAll \<lparr>url = Some [], name = None\<rparr> = []"
    by (simp add: handleStreamPress_def)
  have b: "encodeURIComponent [0xD83D] = Inl URIError"
    by (simp add: isLeadSurrogate_def isTrailSurrogate_def not_unescaped_high)
  have c: "handleStreamPress IOS \<lparr>useExternalPlayer = True, preferredPlayer = js ''vlc''\<rparr>
      rejectAll \<lparr>url = Some [0xD83D], name = None\<rparr>
      = [NavigateToPlayer \<lparr>url = Some [0xD83D], name = None\<rparr>]"
    by (simp add: handleStreamPress_def dispatchBranch_def iosExternal_def
        isLeadSurrogate_def isTrailSurrogate_def not_unescaped_high)
  have d: "handleStreamPress IOS \<lparr>useExternalPlayer = True, preferredPlayer = js ''vlc''\<rparr>
      rejectUndefined \<lparr>url = Some (js ''https://example/video.mp4''), name = None\<rparr>
      = [OpenURL (js ''vlc://https://example/video.mp4'')]"
    by (simp add: dispatch_eval tryNextUrl.simps)
  from a b c d show ?thesis by simp
qed

text \<open>
  C3, as amended. On iOS, for a stream whose url is present, not empty and accepted by
  \<^verbatim>\<open>encodeURIComponent\<close>, and a preferred player that has a scheme table (of
  \<open>N = length urls\<close> templates: 3 for \<^verbatim>\<open>vlc\<close>, 5 for \<^verbatim>\<open>outplayer\<close>, 3 for
  \<^verbatim>\<open>infuse\<close>, 2 for \<^verbatim>\<open>vidhub\<close>): the dispatch whose calls are all rejected with a
  readable reason makes the \<open>N\<close> template attempts in the order of the table, then one
  attempt with the raw url, \<open>N + 1\<close> external attempts in all, and then plays
  internally. Whatever the opener answers, the attempts made are an initial part of
  that sequence, and attempt \<open>i + 1\<close> is made only if attempt \<open>i\<close> was rejected
  with a reason whose message can be read.
\<close>

theorem ios_template_attempts:
  assumes "url s = Some u" and "u \<noteq> []"
    and "encodeURIComponent u = Inr e"
    and "externalPlayerUrls (preferredPlayer st) u e = Some urls"
  shows "handleStreamPress IOS st rejectAll s =
           map OpenURL urls @ [OpenURL u, NavigateToPlayer s]
         \<and> length (attempted (handleStreamPress IOS st rejectAll s)) = length urls + 1
         \<and> length urls =
             (if preferredPlayer st = js ''vlc'' then 3
              else if preferredPlayer st = js ''outplayer'' then 5
              else if preferredPlayer st = js ''infuse'' then 3
              else 2)
         \<and> prefix (attempted (handleStreamPress IOS st openURL s)) (urls @ [u])
         \<and> (\<forall>i. Suc i < length (attempted (handleStreamPress IOS st openURL s)) \<longrightarrow>
                openURL i ((urls @ [u]) ! i) = Rejects WithMessage)"
proof -
  have r: "handleStreamPress IOS st rejectAll s = map OpenURL urls @ [OpenURL u, NavigateToPlayer s]"
    using assms by (rule handleStreamPress_ios_rejectAll)
  have n: "length urls =
             (if preferredPlayer st = js ''vlc'' then 3
              else if preferredPlayer st = js ''outplayer'' then 5
              else if preferredPlayer st = js ''infuse'' then 3
              else 2)"
    using assms(4) by (cases rule: externalPlayerUrls_cases) simp_all
  have a: "attempted (handleStreamPress IOS st openURL s) =
             attempted (fst (tryNextUrl openURL s u urls 0))"
    using assms by (rule attempted_handleStreamPress_ios)
  have "prefix (attempted (fst (tryNextUrl openURL s u urls 0))) (drop 0 (urls @ [u]))"
    by (rule attempted_tryNextUrl_prefix) simp
  then have p: "prefix (attempted (handleStreamPress IOS st openURL s)) (urls @ [u])"
    by (simp add: a)
  have o: "\<forall>i. Suc i < length (attempted (handleStreamPress IOS st openURL s)) \<longrightarrow>
                openURL i ((urls @ [u]) ! i) = Rejects WithMessage"
    using attempted_tryNextUrl_rejected [of 0 urls _ openURL s u] by (simp add: a)
  from r n p o show ?thesis by simp
qed

theorem ios_template_attempts_witness:
  "handleStreamPress IOS \<lparr>useExternalPlayer = False, preferredPlayer = js ''vidhub''\<rparr> rejectAll
     \<lparr>url = Some (js ''http://h/a b.mkv''), name = None\<rparr> =
     [OpenURL (js ''vidhub://play?url=http%3A%2F%2Fh%2Fa%20b.mkv''),
      OpenURL (js ''vidhub://http%3A%2F%2Fh%2Fa%20b.mkv''),
      OpenURL (js ''http://h/a b.mkv''),
      NavigateToPlayer \<lparr>url = Some (js ''http://h/a b.mkv''), name = None\<rparr>]
   \<and> length (attempted (handleStreamPress IOS
        \<lparr>useExternalPlayer = False, preferredPlayer = js ''vidhub''\<rparr> rejectAll
        \<lparr>url = Some (js ''http://h/a b.mkv''), name = None\<rparr>)) = 2 + 1
   \<and> rejectAll 0 (js ''vidhub://play?url=http%3A%2F%2Fh%2Fa%20b.mkv'') = Rejects WithMessage"
proof -
  let ?urls = "[js ''vidhub://play?url='' @ js ''http%3A%2F%2Fh%2Fa%20b.mkv'',
                js ''vidhub://'' @ js ''http%3A%2F%2Fh%2Fa%20b.mkv'']"
  have u: "url \<lparr>url = Some (js ''http://h/a b.mkv''), name = None\<rparr> = Some (js ''http://h/a b.mkv'')"
    and n: "js ''http://h/a b.mkv'' \<noteq> []"
    by simp_all
  have e: "encodeURIComponent (js ''http://h/a b.mkv'') = Inr (js ''http%3A%2F%2Fh%2Fa%20b.mkv'')"
    by (simp add: js_eval)
  have t: "externalPlayerUrls
             (preferredPlayer \<lparr>useExternalPlayer = False, preferredPlayer = js ''vidhub''\<rparr>)
             (js ''http://h/a b.mkv'') (js ''http%3A%2F%2Fh%2Fa%20b.mkv'') = Some ?urls"
    by (simp add: externalPlayerUrls_def)
  note w = ios_template_attempts [OF u n e t, of rejectAll]
  from w have l: "Suc 0 < length (attempted (handleStreamPress IOS
        \<lparr>useExternalPlayer = False, preferredPlayer = js ''vidhub''\<rparr> rejectAll
        \<lparr>url = Some (js ''http://h/a b.mkv''), name = None\<rparr>))"
    by simp
  from w l show ?thesis by (simp add: js_Cons rejectAll_def)
qed

text \<open>
  C3 as stated is about every dispatch under such a preference. With \<^verbatim>\<open>infuse\<close>,
  whose table has three templates: a stream whose url is absent or empty is given no
  attempt at all; a url with an unpaired surrogate is given none either, only the
  internal playback; and after a rejection with the reason \<^verbatim>\<open>undefined\<close> the first
  attempt is the last, with no internal playback.
\<close>

theorem ios_template_url_counterexample:
  "externalPlayerUrls (js ''infuse'') (js ''http://h/v.mp4'') (js ''http%3A%2F%2Fh%2Fv.mp4'') =
     Some [js ''infuse://x-callback-url/play?url=http%3A%2F%2Fh%2Fv.mp4'',
           js ''infuse://play?url=http%3A%2F%2Fh%2Fv.mp4'',
           js ''infuse://http%3A%2F%2Fh%2Fv.mp4'']
   \<and> handleStreamPress IOS \<lparr>useExternalPlayer = True, preferredPlayer = js ''infuse''\<rparr>
        rejectAll \<lparr>url = None, name = Some (js ''Torrent 4k'')\<rparr> = []
   \<and> handleStreamPress IOS \<lparr>useExternalPlayer = True, preferredPlayer = js ''infuse''\<rparr>
        rejectAll \<lparr>url = Some [], name = Some (js ''Torrent 4k'')\<rparr> = []
   \<and> handleStreamPress IOS \<lparr>useExternalPlayer = True, preferredPlayer = js ''infuse''\<rparr>
        rejectAll \<lparr>url = Some [0xDE00], name = None\<rparr>
       = [NavigateToPlayer \<lparr>url = Some [0xDE00], name = None\<rparr>]
   \<and> handleStreamPress IOS \<lparr>useExternalPlayer = True, preferredPlayer = js ''infuse''\<rparr>
        rejectUndefined \<lparr>url = Some (js ''http://h/v.mp4''), name = None\<rparr>
       = [OpenURL (js ''infuse://x-callback-url/play?url=http%3A%2F%2Fh%2Fv.mp4'')]"
proof -
  have t: "externalPlayerUrls (js ''infuse'') (js ''http://h/v.mp4'') (js ''http%3A%2F%2Fh%2Fv.mp4'') =
     Some [js ''infuse://x-callback-url/play?url=http%3A%2F%2Fh%2Fv.mp4'',
           js ''infuse://play?url=http%3A%2F%2Fh%2Fv.mp4'',
           js ''infuse://http%3A%2F%2Fh%2Fv.mp4'']"
    by (simp add: externalPlayerUrls_def js_Cons)
  have a: "handleStreamPress IOS \<lparr>useExternalPlayer = True, preferredPlayer = js ''infuse''\<rparr>
        rejectAll \<lparr>url = None, name = Some (js ''Torrent 4k'')\<rparr> = []"
    by (simp add: handleStreamPress_def)
  have b: "handleStreamPress IOS \<lparr>useExternalPlayer = True, preferredPlayer = js ''infuse''\<rparr>
        rejectAll \<lparr>url = Some [], name = Some (js ''Torrent 4k'')\<rparr> = []"
    by (simp add: handleStreamPress_def)
  have c: "handleStreamPress IOS \<lparr>useExternalPlayer = True, preferredPlayer = js ''infuse''\<rparr>
        rejectAll \<lparr>url = Some [0xDE00], name = None\<rparr>
       = [NavigateToPlayer \<lparr>url = Some [0xDE00], name = None\<rparr>]"
    by (simp add: handleStreamPress_def dispatchBranch_def iosExternal_def
        isLeadSurrogate_def isTrailSurrogate_def not_unescaped_high)
  have d: "handleStreamPress IOS \<lparr>useExternalPlayer = True, preferredPlayer = js ''infuse''\<rparr>
        rejectUndefined \<lparr>url = Some (js ''http://h/v.mp4''), name = None\<rparr>
       = [OpenURL (js ''infuse://x-callback-url/play?url=http%3A%2F%2Fh%2Fv.mp4'')]"
    by (simp add: dispatch_eval tryNextUrl.simps)
  from t a b c d show ?thesis by simp
qed

text \<open>
  C4. On Android with \<^verbatim>\<open>useExternalPlayer\<close> set, a stream whose url starts with
  \<^verbatim>\<open>magnet:\<close> is given exactly one external attempt, with the raw magnet url; the
  intent url is never built or opened. If that call resolves the dispatch is over; if it
  fails (the promise rejects or the call throws), the internal player is navigated to.
\<close>

theorem android_magnet_direct:
  assumes "url s = Some u" and "prefix (js ''magnet:'') u" and "useExternalPlayer st"
  shows "handleStreamPress Android st openURL s =
           OpenURL u # (if openURL 0 u = Resolves then [] else [NavigateToPlayer s])
         \<and> attempted (handleStreamPress Android st openURL s) = [u]
         \<and> intentUrl u \<notin> set (attempted (handleStreamPress Android st openURL s))"
proof -
  from assms(2) have n: "u \<noteq> []" by (auto simp: js_Cons)
  from assms(2) have m: "isMagnet u" by (simp add: isMagnet_def)
  have "handleStreamPress Android st openURL s = androidExternal openURL s u"
    using assms(1) n assms(3) by (rule handleStreamPress_android)
  with m have h: "handleStreamPress Android st openURL s =
           OpenURL u # (if openURL 0 u = Resolves then [] else [NavigateToPlayer s])"
    by (cases "openURL 0 u") (simp_all add: androidExternal_def)
  then have a: "attempted (handleStreamPress Android st openURL s) = [u]" by simp
  from h a intentUrl_neq [of u] show ?thesis by simp
qed

theorem android_magnet_direct_witness:
  "handleStreamPress Android \<lparr>useExternalPlayer = True, preferredPlayer = js ''vlc''\<rparr> rejectAll
     \<lparr>url = Some (js ''magnet:?xt=urn:btih:c12fe1c06bba254a9dc9f519b335aa7c1367a88a''),
      name = None\<rparr> =
   [OpenURL (js ''magnet:?xt=urn:btih:c12fe1c06bba254a9dc9f519b335aa7c1367a88a''),
    NavigateToPlayer
      \<lparr>url = Some (js ''magnet:?xt=urn:btih:c12fe1c06bba254a9dc9f519b335aa7c1367a88a''),
       name = None\<rparr>]"
proof -
  have u: "url \<lparr>url = Some (js ''magnet:?xt=urn:btih:c12fe1c06bba254a9dc9f519b335aa7c1367a88a''),
                 name = None\<rparr>
           = Some (js ''magnet:?xt=urn:btih:c12fe1c06bba254a9dc9f519b335aa7c1367a88a'')"
    and e: "useExternalPlayer \<lparr>useExternalPlayer = True, preferredPlayer = js ''vlc''\<rparr>"
    by simp_all
  have p: "prefix (js ''magnet:'')
             (js ''magnet:?xt=urn:btih:c12fe1c06bba254a9dc9f519b335aa7c1367a88a'')"
    by (simp add: js_Cons)
  from android_magnet_direct [OF u p e, of rejectAll] show ?thesis
    by (simp add: rejectAll_def)
qed

text \<open>
  C5, as amended. Every url handed to \<^verbatim>\<open>Linking.openURL\<close> is derived from the url of
  the stream as follows. On iOS it ends with the url, raw or percent-encoded, unchanged
  after a scheme prefix (or is the raw url itself). On Android it is the raw url itself,
  or the intent wrapping of the url cut before its first \<^verbatim>\<open>?\<close>. So whenever the url
  has no \<^verbatim>\<open>?\<close>, every candidate carries the url unchanged. No other platform
  attempts any url.
\<close>

theorem candidates_wrap_url:
  assumes "url s = Some u" and "c \<in> set (attempted (handleStreamPress os st openURL s))"
  shows "(os = IOS \<longrightarrow>
            suffix u c
            \<or> (case encodeURIComponent u of Inl e \<Rightarrow> False | Inr enc \<Rightarrow> suffix enc c))
       \<and> (os = Android \<longrightarrow>
            c = u \<or>
            c = js ''intent:'' @ takeWhile (\<lambda>x. x \<noteq> cu CHR ''?'') u @
                js ''#Intent;action=android.intent.action.VIEW;category=android.intent.category.DEFAULT;component=;type=video/*;launchFlags=0x10000000;end'')
       \<and> (cu CHR ''?'' \<notin> set u \<longrightarrow> carriesUrl u c)
       \<and> os \<noteq> OtherOS"
proof -
  from assms have n: "u \<noteq> []" by (auto simp: handleStreamPress_def)
  show ?thesis
  proof (cases "dispatchBranch os st")
    case IosExternal
    then have os: "os = IOS" by (auto simp: dispatchBranch_def split: if_splits)
    show ?thesis
    proof (cases "encodeURIComponent u")
      case (Inl x)
      then have "case encodeURIComponent u of
           Inl x \<Rightarrow> True
         | Inr e \<Rightarrow> externalPlayerUrls (preferredPlayer st) u e = None"
        by simp
      with assms(1) n have "handleStreamPress IOS st openURL s = [NavigateToPlayer s]"
        by (rule handleStreamPress_ios_direct)
      with assms(2) os show ?thesis by simp
    next
      case (Inr e)
      show ?thesis
      proof (cases "externalPlayerUrls (preferredPlayer st) u e")
        case None
        with Inr have "case encodeURIComponent u of
             Inl x \<Rightarrow> True
           | Inr e \<Rightarrow> externalPlayerUrls (preferredPlayer st) u e = None"
          by simp
        with assms(1) n have "handleStreamPress IOS st openURL s = [NavigateToPlayer s]"
          by (rule handleStreamPress_ios_direct)
        with assms(2) os show ?thesis by simp
      next
        case (Some urls)
        have "prefix (attempted (fst (tryNextUrl openURL s u urls 0))) (drop 0 (urls @ [u]))"
          by (rule attempted_tryNextUrl_prefix) simp
        then have "set (attempted (handleStreamPress IOS st openURL s)) \<subseteq> set (urls @ [u])"
          using set_mono_prefix
          by (fastforce simp: attempted_handleStreamPress_ios [OF assms(1) n Inr Some])
        with assms(2) os have "c \<in> set urls \<or> c = u" by auto
        then have "suffix u c \<or> suffix e c"
          using template_suffix [OF Some] by auto
        with os Inr show ?thesis by (auto simp: carriesUrl_def)
      qed
    qed
  next
    case AndroidExternal
    then have os: "os = Android" and e: "useExternalPlayer st"
      by (auto simp: dispatchBranch_def split: if_splits)
    from assms(2) have "c \<in> set (attempted (androidExternal openURL s u))"
      by (simp add: os handleStreamPress_android [OF assms(1) n e])
    with attempted_androidExternal have "c = u \<or> c = intentUrl u" by blast
    then show ?thesis
    proof
      assume "c = u"
      with os show ?thesis by (simp add: carriesUrl_def)
    next
      assume c: "c = intentUrl u"
      have "sublist u (js ''intent:'' @ u @
        js ''#Intent;action=android.intent.action.VIEW;category=android.intent.category.DEFAULT;component=;type=video/*;launchFlags=0x10000000;end'')"
        by (rule sublist_appendI)
      then have "cu CHR ''?'' \<notin> set u \<longrightarrow> sublist u (intentUrl u)"
        unfolding intentUrl_def cleanUrl_def
        by (cases "cu CHR ''?'' \<in> set u") (simp_all only: if_False if_True simp_thms)
      with c os show ?thesis
        by (simp add: carriesUrl_def) (simp add: intentUrl_def cleanUrl_takeWhile)
    qed
  next
    case Internal
    with assms n show ?thesis by (simp add: handleStreamPress_def)
  qed
qed

theorem candidates_wrap_url_witness:
  "js ''vlc://http%3A%2F%2Fh%2Fv.mp4'' \<in> set (attempted (handleStreamPress IOS
       \<lparr>useExternalPlayer = False, preferredPlayer = js ''vlc''\<rparr> rejectAll
       \<lparr>url = Some (js ''http://h/v.mp4''), name = None\<rparr>))
   \<and> (suffix (js ''http://h/v.mp4'') (js ''vlc://http%3A%2F%2Fh%2Fv.mp4'')
        \<or> suffix (js ''http%3A%2F%2Fh%2Fv.mp4'') (js ''vlc://http%3A%2F%2Fh%2Fv.mp4''))
   \<and> carriesUrl (js ''http://h/v.mp4'') (js ''vlc://http%3A%2F%2Fh%2Fv.mp4'')
   \<and> intentUrl (js ''http://h/v.mp4'') \<in> set (attempted (handleStreamPress Android
       \<lparr>useExternalPlayer = True, preferredPlayer = js ''vlc''\<rparr> rejectAll
       \<lparr>url = Some (js ''http://h/v.mp4''), name = None\<rparr>))
   \<and> carriesUrl (js ''http://h/v.mp4'') (intentUrl (js ''http://h/v.mp4''))"
proof -
  have u: "url \<lparr>url = Some (js ''http://h/v.mp4''), name = None\<rparr> = Some (js ''http://h/v.mp4'')"
    by simp
  have e: "encodeURIComponent (js ''http://h/v.mp4'') = Inr (js ''http%3A%2F%2Fh%2Fv.mp4'')"
    by (simp add: js_eval)
  have m: "js ''vlc://http%3A%2F%2Fh%2Fv.mp4'' \<in> set (attempted (handleStreamPress IOS
       \<lparr>useExternalPlayer = False, preferredPlayer = js ''vlc''\<rparr> rejectAll
       \<lparr>url = Some (js ''http://h/v.mp4''), name = None\<rparr>))"
    by (simp add: dispatch_eval tryNextUrl.simps)
  have a: "intentUrl (js ''http://h/v.mp4'') \<in> set (attempted (handleStreamPress Android
       \<lparr>useExternalPlayer = True, preferredPlayer = js ''vlc''\<rparr> rejectAll
       \<lparr>url = Some (js ''http://h/v.mp4''), name = None\<rparr>))"
    by (simp add: handleStreamPress_def dispatchBranch_def androidExternal_def isMagnet_def
        rejectAll_def js_Cons)
  have q: "cu CHR ''?'' \<notin> set (js ''http://h/v.mp4'')" by simp
  from candidates_wrap_url [OF u m] candidates_wrap_url [OF u a] q m a show ?thesis
    by (simp add: e)
qed

text \<open>
  C5 as stated holds for every candidate. On Android the intent candidate of a url with
  a query string carries neither the url nor its percent-encoding: the query string is
  dropped, and two urls that differ only there have the same intent candidate.
\<close>

theorem android_intent_drops_query_counterexample:
  "attempted (handleStreamPress Android
      \<lparr>useExternalPlayer = True, preferredPlayer = js ''internal''\<rparr>
      rejectAll \<lparr>url = Some (js ''https://cdn.example/video.mp4?token=abc''), name = None\<rparr>) =
     [js ''intent:https://cdn.example/video.mp4#Intent;action=android.intent.action.VIEW;category=android.intent.category.DEFAULT;component=;type=video/*;launchFlags=0x10000000;end'',
      js ''https://cdn.example/video.mp4?token=abc'']
   \<and> \<not> carriesUrl (js ''https://cdn.example/video.mp4?token=abc'')
      (js ''intent:https://cdn.example/video.mp4#Intent;action=android.intent.action.VIEW;category=android.intent.category.DEFAULT;component=;type=video/*;launchFlags=0x10000000;end'')
   \<and> intentUrl (js ''https://cdn.example/video.mp4?token=abc'') =
       intentUrl (js ''https://cdn.example/video.mp4?token=xyz'')"
proof -
  have i: "intentUrl (js ''https://cdn.example/video.mp4?token=abc'') =
      js ''intent:https://cdn.example/video.mp4#Intent;action=android.intent.action.VIEW;category=android.intent.category.DEFAULT;component=;type=video/*;launchFlags=0x10000000;end''"
    by (simp add: intentUrl_def cleanUrl_def js_Cons)
  have j: "intentUrl (js ''https://cdn.example/video.mp4?token=xyz'') =
      js ''intent:https://cdn.example/video.mp4#Intent;action=android.intent.action.VIEW;category=android.intent.category.DEFAULT;component=;type=video/*;launchFlags=0x10000000;end''"
    by (simp add: intentUrl_def cleanUrl_def js_Cons)
  have a: "attempted (handleStreamPress Android
      \<lparr>useExternalPlayer = True, preferredPlayer = js ''internal''\<rparr>
      rejectAll \<lparr>url = Some (js ''https://cdn.example/video.mp4?token=abc''), name = None\<rparr>) =
     [intentUrl (js ''https://cdn.example/video.mp4?token=abc''),
      js ''https://cdn.example/video.mp4?token=abc'']"
    by (simp add: handleStreamPress_def dispatchBranch_def androidExternal_def isMagnet_def
        rejectAll_def js_Cons)
  have q: "cu CHR ''?'' \<notin> set (intentUrl (js ''https://cdn.example/video.mp4?token=abc''))"
    by (rule intentUrl_no_query)
  have "\<not> sublist (js ''https://cdn.example/video.mp4?token=abc'')
          (intentUrl (js ''https://cdn.example/video.mp4?token=abc''))"
  proof
    assume "sublist (js ''https://cdn.example/video.mp4?token=abc'')
          (intentUrl (js ''https://cdn.example/video.mp4?token=abc''))"
    then have "set (js ''https://cdn.example/video.mp4?token=abc'')
        \<subseteq> set (intentUrl (js ''https://cdn.example/video.mp4?token=abc''))"
      by (rule set_mono_sublist)
    moreover have "cu CHR ''?'' \<in> set (js ''https://cdn.example/video.mp4?token=abc'')"
      by simp
    ultimately show False using q by blast
  qed
  moreover have e: "encodeURIComponent (js ''https://cdn.example/video.mp4?token=abc'')
      = Inr (js ''https%3A%2F%2Fcdn.example%2Fvideo.mp4%3Ftoken%3Dabc'')"
    by (simp add: js_eval)
  moreover have "\<not> sublist (js ''https%3A%2F%2Fcdn.example%2Fvideo.mp4%3Ftoken%3Dabc'')
          (intentUrl (js ''https://cdn.example/video.mp4?token=abc''))"
  proof
    assume "sublist (js ''https%3A%2F%2Fcdn.example%2Fvideo.mp4%3Ftoken%3Dabc'')
          (intentUrl (js ''https://cdn.example/video.mp4?token=abc''))"
    then have "set (js ''https%3A%2F%2Fcdn.example%2Fvideo.mp4%3Ftoken%3Dabc'')
        \<subseteq> set (intentUrl (js ''https://cdn.example/video.mp4?token=abc''))"
      by (rule set_mono_sublist)
    moreover have "cu CHR ''%'' \<in> set (js ''https%3A%2F%2Fcdn.example%2Fvideo.mp4%3Ftoken%3Dabc'')"
      by simp
    moreover have "cu CHR ''%'' \<notin> set (intentUrl (js ''https://cdn.example/video.mp4?token=abc''))"
      unfolding i by simp
    ultimately show False by blast
  qed
  ultimately have c: "\<not> carriesUrl (js ''https://cdn.example/video.mp4?token=abc'')
      (intentUrl (js ''https://cdn.example/video.mp4?token=abc''))"
    by (simp add: carriesUrl_def)
  from a c i j show ?thesis by simp
qed

text \<open>
  C6, as amended. For a stream whose url is present and not empty: when the preference
  selects the internal player (\<^verbatim>\<open>preferredPlayer = "internal"\<close> on iOS,
  \<^verbatim>\<open>useExternalPlayer\<close> false on Android), or the preferred player on iOS is none of
  the four names of the scheme table, the dispatch is exactly one action, the navigation
  to the internal player, with no external attempt.
\<close>

theorem internal_preference_direct:
  assumes "url s = Some u" and "u \<noteq> []"
    and "os = IOS \<and> preferredPlayer st = js ''internal''
         \<or> os = Android \<and> useExternalPlayer st = False
         \<or> os = IOS \<and> preferredPlayer st
               \<notin> {js ''vlc'', js ''outplayer'', js ''infuse'', js ''vidhub''}"
  shows "handleStreamPress os st openURL s = [NavigateToPlayer s]
         \<and> attempted (handleStreamPress os st openURL s) = []"
proof -
  have "handleStreamPress os st openURL s = [NavigateToPlayer s]"
    using assms(3)
  proof (elim disjE conjE)
    assume "os = IOS" "preferredPlayer st = js ''internal''"
    then have "dispatchBranch os st = Internal" by (simp add: dispatchBranch_def)
    with assms(1,2) show ?thesis by (rule handleStreamPress_internal)
  next
    assume "os = Android" "useExternalPlayer st = False"
    then have "dispatchBranch os st = Internal" by (simp add: dispatchBranch_def)
    with assms(1,2) show ?thesis by (rule handleStreamPress_internal)
  next
    assume os: "os = IOS"
      and "preferredPlayer st \<notin> {js ''vlc'', js ''outplayer'', js ''infuse'', js ''vidhub''}"
    then have "\<And>e. externalPlayerUrls (preferredPlayer st) u e = None"
      by (simp add: externalPlayerUrls_None)
    then have "case encodeURIComponent u of
           Inl x \<Rightarrow> True
         | Inr e \<Rightarrow> externalPlayerUrls (preferredPlayer st) u e = None"
      by (simp split: sum.split)
    with assms(1,2) show ?thesis unfolding os by (rule handleStreamPress_ios_direct)
  qed
  then show ?thesis by simp
qed

theorem internal_preference_direct_witness:
  "handleStreamPress IOS \<lparr>useExternalPlayer = True, preferredPlayer = js ''internal''\<rparr> rejectAll
     \<lparr>url = Some (js ''http://h/v.mp4''), name = None\<rparr> =
     [NavigateToPlayer \<lparr>url = Some (js ''http://h/v.mp4''), name = None\<rparr>]
   \<and> handleStreamPress Android \<lparr>useExternalPlayer = False, preferredPlayer = js ''vlc''\<rparr> rejectAll
     \<lparr>url = Some (js ''http://h/v.mp4''), name = None\<rparr> =
     [NavigateToPlayer \<lparr>url = Some (js ''http://h/v.mp4''), name = None\<rparr>]
   \<and> handleStreamPress IOS \<lparr>useExternalPlayer = True, preferredPlayer = js ''mxplayer''\<rparr> rejectAll
     \<lparr>url = Some (js ''http://h/v.mp4''), name = None\<rparr> =
     [NavigateToPlayer \<lparr>url = Some (js ''http://h/v.mp4''), name = None\<rparr>]"
proof -
  have u: "url \<lparr>url = Some (js ''http://h/v.mp4''), name = None\<rparr> = Some (js ''http://h/v.mp4'')"
    and n: "js ''http://h/v.mp4'' \<noteq> []"
    by simp_all
  have a: "IOS = IOS \<and> preferredPlayer \<lparr>useExternalPlayer = True, preferredPlayer = js ''internal''\<rparr>
             = js ''internal''
         \<or> IOS = Android \<and> useExternalPlayer \<lparr>useExternalPlayer = True, preferredPlayer = js ''internal''\<rparr>
             = False
         \<or> IOS = IOS \<and> preferredPlayer \<lparr>useExternalPlayer = True, preferredPlayer = js ''internal''\<rparr>
             \<notin> {js ''vlc'', js ''outplayer'', js ''infuse'', js ''vidhub''}"
    by simp
  have b: "Android = IOS \<and> preferredPlayer \<lparr>useExternalPlayer = False, preferredPlayer = js ''vlc''\<rparr>
             = js ''internal''
         \<or> Android = Android \<and> useExternalPlayer \<lparr>useExternalPlayer = False, preferredPlayer = js ''vlc''\<rparr>
             = False
         \<or> Android = IOS \<and> preferredPlayer \<lparr>useExternalPlayer = False, preferredPlayer = js ''vlc''\<rparr>
             \<notin> {js ''vlc'', js ''outplayer'', js ''infuse'', js ''vidhub''}"
    by simp
  have c: "IOS = IOS \<and> preferredPlayer \<lparr>useExternalPlayer = True, preferredPlayer = js ''mxplayer''\<rparr>
             = js ''internal''
         \<or> IOS = Android \<and> useExternalPlayer \<lparr>useExternalPlayer = True, preferredPlayer = js ''mxplayer''\<rparr>
             = False
         \<or> IOS = IOS \<and> preferredPlayer \<lparr>useExternalPlayer = True, preferredPlayer = js ''mxplayer''\<rparr>
             \<notin> {js ''vlc'', js ''outplayer'', js ''infuse'', js ''vidhub''}"
    by simp
  from internal_preference_direct [OF u n a, of rejectAll]
    internal_preference_direct [OF u n b, of rejectAll]
    internal_preference_direct [OF u n c, of rejectAll]
  show ?thesis by simp
qed

text \<open>
  C6 as stated is about every dispatch under such a preference. For a stream whose url
  is absent or empty the dispatch is not that single navigation: it is empty.
\<close>

theorem internal_preference_no_url_counterexample:
  "handleStreamPress Android \<lparr>useExternalPlayer = False, preferredPlayer = js ''internal''\<rparr> rejectAll
     \<lparr>url = None, name = Some (js ''Torrent 720p'')\<rparr> \<noteq>
     [NavigateToPlayer \<lparr>url = None, name = Some (js ''Torrent 720p'')\<rparr>]
   \<and> handleStreamPress IOS \<lparr>useExternalPlayer = False, preferredPlayer = js ''internal''\<rparr> rejectAll
     \<lparr>url = Some [], name = Some (js ''Torrent 720p'')\<rparr> \<noteq>
     [NavigateToPlayer \<lparr>url = Some [], name = Some (js ''Torrent 720p'')\<rparr>]"
  by (simp add: handleStreamPress_def)

text \<open>
  C9. If the url of a stream is absent or empty, \<^verbatim>\<open>handleStreamPress\<close> does nothing:
  no url is opened and the internal player is not navigated to, on every platform, for
  every preference and whatever the opener would answer.
\<close>

theorem no_url_no_action:
  "url s = None \<or> url s = Some [] \<Longrightarrow> handleStreamPress os st openURL s = []"
  by (auto simp: handleStreamPress_def)

theorem no_url_no_action_witness:
  "(url \<lparr>url = None, name = Some (js ''Torrent 1080p'')\<rparr> = None
      \<or> url \<lparr>url = None, name = Some (js ''Torrent 1080p'')\<rparr> = Some [])
   \<and> handleStreamPress Android \<lparr>useExternalPlayer = True, preferredPlayer = js ''internal''\<rparr>
        rejectAll \<lparr>url = None, name = Some (js ''Torrent 1080p'')\<rparr> = []
   \<and> (url \<lparr>url = Some [], name = None\<rparr> = None \<or> url \<lparr>url = Some [], name = None\<rparr> = Some [])
   \<and> handleStreamPress IOS \<lparr>useExternalPlayer = False, preferredPlayer = js ''vlc''\<rparr>
        rejectAll \<lparr>url = Some [], name = None\<rparr> = []"
  using no_url_no_action [of "\<lparr>url = None, name = Some (js ''Torrent 1080p'')\<rparr>" Android
          "\<lparr>useExternalPlayer = True, preferredPlayer = js ''internal''\<rparr>" rejectAll]
        no_url_no_action [of "\<lparr>url = Some [], name = None\<rparr>" IOS
          "\<lparr>useExternalPlayer = False, preferredPlayer = js ''vlc''\<rparr>" rejectAll]
  by simp

text \<open>
  C10. The two halves of the preference are read on different platforms. On iOS the
  external branch is chosen exactly when \<^verbatim>\<open>preferredPlayer\<close> is not
  \<^verbatim>\<open>"internal"\<close>, and neither the branch nor the whole dispatch depends on
  \<^verbatim>\<open>useExternalPlayer\<close>. On Android the external branch is chosen exactly when
  \<^verbatim>\<open>useExternalPlayer\<close> is true, and neither the branch nor the whole dispatch
  depends on \<^verbatim>\<open>preferredPlayer\<close>. The halves that are read decide what is done
  with a stream that has a url: on iOS, whatever \<^verbatim>\<open>useExternalPlayer\<close> is, the
  player \<^verbatim>\<open>vlc\<close> makes the first action the opening of the \<^verbatim>\<open>vlc://\<close> url (the
  internal playback when \<^verbatim>\<open>encodeURIComponent\<close> throws on the url), and the player
  \<^verbatim>\<open>internal\<close> makes the dispatch the internal playback alone; on Android, whatever
  \<^verbatim>\<open>preferredPlayer\<close> is, \<^verbatim>\<open>useExternalPlayer\<close> true makes the first action
  the opening of the magnet url or of the intent url, and false makes the dispatch the
  internal playback alone. So for \<^verbatim>\<open>{useExternalPlayer: false, preferredPlayer: "vlc"}\<close>
  iOS chooses the external branch and Android the internal one.
\<close>

theorem preference_halves_disjoint:
  "(dispatchBranch IOS st = IosExternal \<longleftrightarrow> preferredPlayer st \<noteq> js ''internal'')
   \<and> dispatchBranch IOS (st\<lparr>useExternalPlayer := b\<rparr>) = dispatchBranch IOS st
   \<and> handleStreamPress IOS (st\<lparr>useExternalPlayer := b\<rparr>) openURL s
       = handleStreamPress IOS st openURL s
   \<and> (dispatchBranch Android st = AndroidExternal \<longleftrightarrow> useExternalPlayer st)
   \<and> dispatchBranch Android (st\<lparr>preferredPlayer := p\<rparr>) = dispatchBranch Android st
   \<and> handleStreamPress Android (st\<lparr>preferredPlayer := p\<rparr>) openURL s
       = handleStreamPress Android st openURL s
   \<and> dispatchBranch IOS \<lparr>useExternalPlayer = False, preferredPlayer = js ''vlc''\<rparr> = IosExternal
   \<and> dispatchBranch Android \<lparr>useExternalPlayer = False, preferredPlayer = js ''vlc''\<rparr> = Internal
   \<and> hd (handleStreamPress IOS \<lparr>useExternalPlayer = b, preferredPlayer = js ''vlc''\<rparr> openURL
         \<lparr>url = Some (x # xs), name = n\<rparr>) =
       (case encodeURIComponent (x # xs) of
          Inl e \<Rightarrow> NavigateToPlayer \<lparr>url = Some (x # xs), name = n\<rparr>
        | Inr enc \<Rightarrow> OpenURL (js ''vlc://'' @ x # xs))
   \<and> handleStreamPress IOS \<lparr>useExternalPlayer = b, preferredPlayer = js ''internal''\<rparr> openURL
         \<lparr>url = Some (x # xs), name = n\<rparr> = [NavigateToPlayer \<lparr>url = Some (x # xs), name = n\<rparr>]
   \<and> hd (handleStreamPress Android \<lparr>useExternalPlayer = True, preferredPlayer = p\<rparr> openURL
         \<lparr>url = Some (x # xs), name = n\<rparr>) =
       OpenURL (if prefix (js ''magnet:'') (x # xs) then x # xs else intentUrl (x # xs))
   \<and> handleStreamPress Android \<lparr>useExternalPlayer = False, preferredPlayer = p\<rparr> openURL
         \<lparr>url = Some (x # xs), name = n\<rparr> = [NavigateToPlayer \<lparr>url = Some (x # xs), name = n\<rparr>]"
proof -
  have i: "handleStreamPress IOS (st\<lparr>useExternalPlayer := b\<rparr>) openURL s
       = handleStreamPress IOS st openURL s"
    by (simp add: handleStreamPress_def dispatchBranch_def iosExternal_def
        split: option.split cong: sum.case_cong)
  have a: "handleStreamPress Android (st\<lparr>preferredPlayer := p\<rparr>) openURL s
       = handleStreamPress Android st openURL s"
    by (simp add: handleStreamPress_def dispatchBranch_def split: option.split)
  have h: "hd (handleStreamPress IOS \<lparr>useExternalPlayer = b, preferredPlayer = js ''vlc''\<rparr> openURL
         \<lparr>url = Some (x # xs), name = n\<rparr>) =
       (case encodeURIComponent (x # xs) of
          Inl e \<Rightarrow> NavigateToPlayer \<lparr>url = Some (x # xs), name = n\<rparr>
        | Inr enc \<Rightarrow> OpenURL (js ''vlc://'' @ x # xs))"
    by (rule hd_handleStreamPress_ios_vlc) simp_all
  have j: "handleStreamPress IOS \<lparr>useExternalPlayer = b, preferredPlayer = js ''internal''\<rparr> openURL
         \<lparr>url = Some (x # xs), name = n\<rparr> = [NavigateToPlayer \<lparr>url = Some (x # xs), name = n\<rparr>]"
    by (simp add: handleStreamPress_def dispatchBranch_def)
  have k: "hd (handleStreamPress Android \<lparr>useExternalPlayer = True, preferredPlayer = p\<rparr> openURL
         \<lparr>url = Some (x # xs), name = n\<rparr>) =
       OpenURL (if prefix (js ''magnet:'') (x # xs) then x # xs else intentUrl (x # xs))"
    by (simp add: handleStreamPress_def dispatchBranch_def hd_androidExternal isMagnet_def)
  have l: "handleStreamPress Android \<lparr>useExternalPlayer = False, preferredPlayer = p\<rparr> openURL
         \<lparr>url = Some (x # xs), name = n\<rparr> = [NavigateToPlayer \<lparr>url = Some (x # xs), name = n\<rparr>]"
    by (simp add: handleStreamPress_def dispatchBranch_def)
  from i a h j k l show ?thesis by (simp add: dispatchBranch_def)
qed

theorem preference_halves_disjoint_witness:
  "hd (handleStreamPress IOS \<lparr>useExternalPlayer = False, preferredPlayer = js ''vlc''\<rparr> rejectAll
         \<lparr>url = Some (js ''http://h/v.mp4''), name = None\<rparr>) = OpenURL (js ''vlc://http://h/v.mp4'')
   \<and> handleStreamPress Android \<lparr>useExternalPlayer = False, preferredPlayer = js ''vlc''\<rparr> rejectAll
         \<lparr>url = Some (js ''http://h/v.mp4''), name = None\<rparr>
       = [NavigateToPlayer \<lparr>url = Some (js ''http://h/v.mp4''), name = None\<rparr>]
   \<and> hd (handleStreamPress Android \<lparr>useExternalPlayer = True, preferredPlayer = js ''vlc''\<rparr> rejectAll
         \<lparr>url = Some (js ''http://h/v.mp4''), name = None\<rparr>)
       = OpenURL (js ''intent:http://h/v.mp4#Intent;action=android.intent.action.VIEW;category=android.intent.category.DEFAULT;component=;type=video/*;launchFlags=0x10000000;end'')
   \<and> handleStreamPress IOS \<lparr>useExternalPlayer = True, preferredPlayer = js ''internal''\<rparr> rejectAll
         \<lparr>url = Some (js ''http://h/v.mp4''), name = None\<rparr>
       = [NavigateToPlayer \<lparr>url = Some (js ''http://h/v.mp4''), name = None\<rparr>]"
proof -
  have e: "encodeURIComponent (cu CHR ''h'' # js ''ttp://h/v.mp4'') = Inr (js ''http%3A%2F%2Fh%2Fv.mp4'')"
    by (simp add: js_eval)
  have i: "intentUrl (cu CHR ''h'' # js ''ttp://h/v.mp4'') =
      js ''intent:http://h/v.mp4#Intent;action=android.intent.action.VIEW;category=android.intent.category.DEFAULT;component=;type=video/*;launchFlags=0x10000000;end''"
    by (simp add: intentUrl_def cleanUrl_def js_Cons)
  have m: "\<not> prefix (js ''magnet:'') (cu CHR ''h'' # js ''ttp://h/v.mp4'')"
    by (simp add: js_Cons)
  have j: "js ''http://h/v.mp4'' = cu CHR ''h'' # js ''ttp://h/v.mp4''"
    by (simp add: js_Cons)
  note t = preference_halves_disjoint [of _ _ rejectAll _ _ "cu CHR ''h''" "js ''ttp://h/v.mp4''" None,
      unfolded e i]
  from t [of _ False] t [of _ True] m show ?thesis
    unfolding j by (simp add: js_Cons)
qed

section \<open>Properties of the selector\<close>

subsection \<open>findIndex is the position, and the comparator a sort key\<close>

lemma findIndex_position:
  "findIndex P xs =
     (if \<exists>x \<in> set xs. P x then int (length (takeWhile (\<lambda>x. \<not> P x) xs)) else - 1)"
  by (induction xs) (auto simp: Let_def)

lemma installedIndex_position:
  "installedIndex inst a = (if presentIn inst a then int (positionIn inst a) else - 1)"
  unfolding installedIndex_def presentIn_def positionIn_def findIndex_position
  by (auto simp: image_iff)

lemma positionIn_less: "presentIn inst a \<Longrightarrow> positionIn inst a < length inst"
  unfolding presentIn_def positionIn_def
  by (induction inst) auto

lemma positionIn_nth:
  "presentIn inst a \<Longrightarrow> manifestId (inst ! positionIn inst a) = a"
  unfolding positionIn_def
  using positionIn_less [of inst a] nth_length_takeWhile [of "\<lambda>addon. manifestId addon \<noteq> a" inst]
  by (simp add: positionIn_def)

lemma positionIn_first:
  "i < positionIn inst a \<Longrightarrow> manifestId (inst ! i) \<noteq> a"
  unfolding positionIn_def
  using nth_mem [of i "takeWhile (\<lambda>addon. manifestId addon \<noteq> a) inst"]
  by (auto simp: takeWhile_nth dest: set_takeWhileD)

lemma compareProviders_rank:
  "compareProviders inst a b \<le> 0 \<longleftrightarrow> providerRank inst a \<le> providerRank inst b"
  using positionIn_less [of inst a] positionIn_less [of inst b]
  by (auto simp: compareProviders_def providerRank_def Let_def
      installedIndex_position [unfolded installedIndex_def])

lemma rank_present: "presentIn inst a \<longleftrightarrow> providerRank inst a < length inst"
  using positionIn_less [of inst a] by (auto simp: providerRank_def)

lemma rank_absent: "\<not> presentIn inst a \<longleftrightarrow> providerRank inst a = length inst"
  using rank_present [of inst a] by (auto simp: providerRank_def)

lemma compareProviders_same: "compareProviders inst a a = 0"
  by (simp add: compareProviders_def Let_def)

subsection \<open>The sort\<close>

lemma insertBy_insort_key:
  assumes "\<And>x y. cmp x y \<le> 0 \<longleftrightarrow> f x \<le> f y"
  shows "insertBy cmp x ys = insort_key f x ys"
  by (induction ys) (simp_all add: assms)

lemma sortBy_sort_key:
  assumes "\<And>x y. cmp x y \<le> 0 \<longleftrightarrow> f x \<le> f y"
  shows "sortBy cmp xs = sort_key f xs"
  by (induction xs) (simp_all add: sortBy_def sort_key_def insertBy_insort_key [OF assms])

lemma sortBy_compareProviders:
  "sortBy (compareProviders inst) ids = sort_key (providerRank inst) ids"
  by (rule sortBy_sort_key) (rule compareProviders_rank)

lemma map_insertBy:
  "map g (insertBy (\<lambda>a b. cmp (g a) (g b)) e es) = insertBy cmp (g e) (map g es)"
  by (induction es) simp_all

lemma map_sortBy:
  "map g (sortBy (\<lambda>a b. cmp (g a) (g b)) es) = sortBy cmp (map g es)"
  by (induction es) (simp_all add: sortBy_def map_insertBy)

lemma mset_insertBy: "mset (insertBy cmp x ys) = add_mset x (mset ys)"
  by (induction ys) simp_all

lemma mset_sortBy: "mset (sortBy cmp xs) = mset xs"
  by (induction xs) (simp_all add: sortBy_def mset_insertBy)

lemma sortBy_all_le:
  "(\<forall>x \<in> set xs. \<forall>y \<in> set xs. cmp x y \<le> 0) \<Longrightarrow> sortBy cmp xs = xs"
proof (induction xs)
  case Nil
  show ?case by (simp add: sortBy_def)
next
  case (Cons x xs)
  then have "sortBy cmp xs = xs" by simp
  then have "sortBy cmp (x # xs) = insertBy cmp x xs" by (simp add: sortBy_def)
  also have "\<dots> = x # xs" using Cons.prems by (cases xs) simp_all
  finally show ?case .
qed

lemma sorted_partition:
  "sorted (map f xs) \<Longrightarrow> xs = filter (\<lambda>x. f x < L) xs @ filter (\<lambda>x. \<not> f x < L) xs"
proof (induction xs)
  case Nil
  show ?case by simp
next
  case (Cons x xs)
  show ?case
  proof (cases "f x < L")
    case True
    with Cons show ?thesis by simp
  next
    case False
    with Cons.prems have "\<forall>y \<in> set xs. \<not> f y < L" by fastforce
    then have "filter (\<lambda>x. f x < L) xs = []" "filter (\<lambda>x. \<not> f x < L) xs = xs"
      by (simp_all add: filter_empty_conv)
    with False show ?thesis by simp
  qed
qed

lemma sortBy_compareProviders_order:
  "installedFirst inst ids (sortBy (compareProviders inst) ids)"
proof -
  define out where "out = sortBy (compareProviders inst) ids"
  have o: "out = sort_key (providerRank inst) ids"
    by (simp add: out_def sortBy_compareProviders)
  have m: "mset out = mset ids" by (simp add: o)
  have s: "sorted (map (providerRank inst) out)" by (simp add: o)
  have i: "presentIn inst = (\<lambda>a. providerRank inst a < length inst)"
    by (simp add: fun_eq_iff rank_present)
  from sorted_partition [OF s, of "length inst"]
  have p: "out = filter (presentIn inst) out @ filter (\<lambda>a. \<not> presentIn inst a) out"
    by (simp add: i)
  have "sorted (map (providerRank inst) (filter (presentIn inst) out))"
    using s by (rule sorted_filter)
  moreover have "map (providerRank inst) (filter (presentIn inst) out) =
      map (positionIn inst) (filter (presentIn inst) out)"
    by (rule map_cong) (simp_all add: providerRank_def)
  ultimately have t: "sorted (map (positionIn inst) (filter (presentIn inst) out))"
    by simp
  have "filter (\<lambda>a. providerRank inst a = length inst) out =
        filter (\<lambda>a. providerRank inst a = length inst) ids"
    unfolding o by (rule sort_key_stable)
  then have e: "filter (\<lambda>a. \<not> presentIn inst a) out = filter (\<lambda>a. \<not> presentIn inst a) ids"
    by (simp add: rank_absent)
  from m p t e show ?thesis
    unfolding installedFirst_def out_def by blast
qed

subsection \<open>sections and filterItems\<close>

lemma addonId_sections:
  "map addonId (sections inst sel entries) =
     sortBy (compareProviders inst)
       (map fst (filter (\<lambda>e. sel = js ''all'' \<or> fst e = sel) entries))"
proof -
  have a: "map addonId (map toSection es) = map fst es" for es
    by (simp add: toSection_def)
  have f: "(\<lambda>e. if sel = js ''all'' then True else fst e = sel)
             = (\<lambda>e. sel = js ''all'' \<or> fst e = sel)"
    by auto
  show ?thesis
    unfolding sections_def a f by (rule map_sortBy)
qed

lemma ids_filterItems:
  "map fst (filterItems inst avail entries) = js ''all'' # sortBy (compareProviders inst) avail"
  by (simp add: filterItems_def comp_def)

lemma sections_all:
  "sections inst (js ''all'') entries =
     map toSection (sortBy (\<lambda>a b. compareProviders inst (fst a) (fst b)) entries)"
  by (simp add: sections_def)

lemma sections_concrete:
  assumes "p \<noteq> js ''all''"
  shows "sections inst p entries = map toSection (filter (\<lambda>e. fst e = p) entries)"
proof -
  have "sortBy (\<lambda>a b. compareProviders inst (fst a) (fst b)) (filter (\<lambda>e. fst e = p) entries)
        = filter (\<lambda>e. fst e = p) entries"
    by (rule sortBy_all_le) (simp add: compareProviders_same)
  with assms show ?thesis by (simp add: sections_def)
qed

lemma distinct_keys_filter:
  "distinct (map fst entries) \<Longrightarrow> length (filter (\<lambda>e. fst e = p) entries) \<le> 1"
proof (induction entries)
  case Nil
  show ?case by simp
next
  case (Cons e es)
  show ?case
  proof (cases "fst e = p")
    case True
    with Cons.prems have "p \<notin> fst ` set es" by simp
    then have "filter (\<lambda>e. fst e = p) es = []" by (auto simp: filter_empty_conv)
    with True show ?thesis by simp
  next
    case False
    with Cons show ?thesis by simp
  qed
qed

text \<open>
  The scenario of the specification: groups of the providers b, a, c in this order, and
  a, c installed.
\<close>

lemma selector_scenario:
  "map addonId (sections
      [\<lparr>manifestId = js ''a'', manifestName = js ''A''\<rparr>,
       \<lparr>manifestId = js ''c'', manifestName = js ''C''\<rparr>]
      (js ''all'')
      [(js ''b'', \<lparr>addonName = js ''B'', streams = []\<rparr>),
       (js ''a'', \<lparr>addonName = js ''A'', streams = []\<rparr>),
       (js ''c'', \<lparr>addonName = js ''C'', streams = []\<rparr>)]) = [js ''a'', js ''c'', js ''b'']"
  by (simp add: sections_def sortBy_def compareProviders_def toSection_def)

section \<open>The claims about the selector\<close>

text \<open>
  C7. With the token \<^verbatim>\<open>all\<close> the sections are the groups of the aggregated mapping,
  each exactly once, so the stream entries of the sections together are the stream
  entries of the mapping. With a concrete provider id \<open>p\<close> (any token but
  \<^verbatim>\<open>all\<close>) the sections are the groups stored under \<open>p\<close>, in their order: every
  section has the provider id \<open>p\<close> and the streams of a group of \<open>p\<close>, and, the keys
  of a mapping being distinct, there is at most one section.
\<close>

theorem selector_all_or_one:
  "mset (sections inst (js ''all'') entries) = mset (map toSection entries)
   \<and> (\<Union>sec \<in> set (sections inst (js ''all'') entries). set (data sec))
       = (\<Union>e \<in> set entries. set (streams (snd e)))
   \<and> (p \<noteq> js ''all'' \<longrightarrow>
        sections inst p entries = map toSection (filter (\<lambda>e. fst e = p) entries)
        \<and> (\<forall>sec \<in> set (sections inst p entries).
              addonId sec = p \<and> (\<exists>g. (p, g) \<in> set entries \<and> data sec = streams g))
        \<and> (distinct (map fst entries) \<longrightarrow> length (sections inst p entries) \<le> 1))"
proof -
  have m: "mset (sections inst (js ''all'') entries) = mset (map toSection entries)"
    by (simp add: sections_all mset_sortBy)
  then have "set (sections inst (js ''all'') entries) = toSection ` set entries"
    by (metis set_map set_mset_mset)
  then have u: "(\<Union>sec \<in> set (sections inst (js ''all'') entries). set (data sec))
       = (\<Union>e \<in> set entries. set (streams (snd e)))"
    by (simp add: toSection_def)
  have c: "p \<noteq> js ''all'' \<longrightarrow>
        sections inst p entries = map toSection (filter (\<lambda>e. fst e = p) entries)
        \<and> (\<forall>sec \<in> set (sections inst p entries).
              addonId sec = p \<and> (\<exists>g. (p, g) \<in> set entries \<and> data sec = streams g))
        \<and> (distinct (map fst entries) \<longrightarrow> length (sections inst p entries) \<le> 1)"
  proof
    assume p: "p \<noteq> js ''all''"
    note s = sections_concrete [OF p, of inst entries]
    have "\<forall>sec \<in> set (sections inst p entries).
              addonId sec = p \<and> (\<exists>g. (p, g) \<in> set entries \<and> data sec = streams g)"
      unfolding s by (auto simp: toSection_def)
    moreover have "distinct (map fst entries) \<longrightarrow> length (sections inst p entries) \<le> 1"
      unfolding s using distinct_keys_filter [of entries p] by simp
    ultimately show "sections inst p entries = map toSection (filter (\<lambda>e. fst e = p) entries)
        \<and> (\<forall>sec \<in> set (sections inst p entries).
              addonId sec = p \<and> (\<exists>g. (p, g) \<in> set entries \<and> data sec = streams g))
        \<and> (distinct (map fst entries) \<longrightarrow> length (sections inst p entries) \<le> 1)"
      using s by blast
  qed
  from m u c show ?thesis by blast
qed

theorem selector_all_or_one_witness:
  "js ''torrentio'' \<noteq> js ''all''
   \<and> distinct (map fst
        [(js ''comet'', \<lparr>addonName = js ''Comet'',
            streams = [\<lparr>url = Some (js ''http://c/1''), name = None\<rparr>]\<rparr>),
         (js ''torrentio'', \<lparr>addonName = js ''Torrentio'',
            streams = [\<lparr>url = Some (js ''http://t/1''), name = None\<rparr>,
                       \<lparr>url = None, name = Some (js ''4k'')\<rparr>]\<rparr>)])
   \<and> sections [\<lparr>manifestId = js ''torrentio'', manifestName = js ''Torrentio''\<rparr>] (js ''torrentio'')
        [(js ''comet'', \<lparr>addonName = js ''Comet'',
            streams = [\<lparr>url = Some (js ''http://c/1''), name = None\<rparr>]\<rparr>),
         (js ''torrentio'', \<lparr>addonName = js ''Torrentio'',
            streams = [\<lparr>url = Some (js ''http://t/1''), name = None\<rparr>,
                       \<lparr>url = None, name = Some (js ''4k'')\<rparr>]\<rparr>)]
       = [\<lparr>title = js ''Torrentio'', addonId = js ''torrentio'',
           data = [\<lparr>url = Some (js ''http://t/1''), name = None\<rparr>,
                   \<lparr>url = None, name = Some (js ''4k'')\<rparr>]\<rparr>]
   \<and> length (sections [\<lparr>manifestId = js ''torrentio'', manifestName = js ''Torrentio''\<rparr>]
        (js ''torrentio'')
        [(js ''comet'', \<lparr>addonName = js ''Comet'',
            streams = [\<lparr>url = Some (js ''http://c/1''), name = None\<rparr>]\<rparr>),
         (js ''torrentio'', \<lparr>addonName = js ''Torrentio'',
            streams = [\<lparr>url = Some (js ''http://t/1''), name = None\<rparr>,
                       \<lparr>url = None, name = Some (js ''4k'')\<rparr>]\<rparr>)])
       \<le> 1
   \<and> (\<Union>sec \<in> set (sections [\<lparr>manifestId = js ''torrentio'', manifestName = js ''Torrentio''\<rparr>]
        (js ''all'')
        [(js ''comet'', \<lparr>addonName = js ''Comet'',
            streams = [\<lparr>url = Some (js ''http://c/1''), name = None\<rparr>]\<rparr>),
         (js ''torrentio'', \<lparr>addonName = js ''Torrentio'',
            streams = [\<lparr>url = Some (js ''http://t/1''), name = None\<rparr>,
                       \<lparr>url = None, name = Some (js ''4k'')\<rparr>]\<rparr>)]).
        set (data sec))
       = {\<lparr>url = Some (js ''http://c/1''), name = None\<rparr>,
          \<lparr>url = Some (js ''http://t/1''), name = None\<rparr>,
          \<lparr>url = None, name = Some (js ''4k'')\<rparr>}"
  using selector_all_or_one [of
      "[\<lparr>manifestId = js ''torrentio'', manifestName = js ''Torrentio''\<rparr>]"
      "[(js ''comet'', \<lparr>addonName = js ''Comet'',
            streams = [\<lparr>url = Some (js ''http://c/1''), name = None\<rparr>]\<rparr>),
        (js ''torrentio'', \<lparr>addonName = js ''Torrentio'',
            streams = [\<lparr>url = Some (js ''http://t/1''), name = None\<rparr>,
                       \<lparr>url = None, name = Some (js ''4k'')\<rparr>]\<rparr>)]"
      "js ''torrentio''"]
  by (simp add: toSection_def insert_commute)

text \<open>
  C8. Both orderings, the one of the sections and the one of the filter items after the
  leading \<^verbatim>\<open>All Providers\<close> item, follow the ordering rule \<open>installedFirst\<close>: the
  same provider ids as before the sort; the providers present in the installed list
  first; those sorted by their position in that list; and the providers absent from it
  after them in their encounter order. Presence and position are those of the installed
  list itself, and the index the comparator computes with \<^verbatim>\<open>findIndex\<close> is that
  position for a present provider and -1 for an absent one.
\<close>

theorem installed_order_first:
  "installedFirst inst (map fst (filter (\<lambda>e. sel = js ''all'' \<or> fst e = sel) entries))
      (map addonId (sections inst sel entries))
   \<and> hd (filterItems inst avail entries) = (js ''all'', js ''All Providers'')
   \<and> installedFirst inst avail (map fst (tl (filterItems inst avail entries)))
   \<and> installedIndex inst a = (if presentIn inst a then int (positionIn inst a) else - 1)"
proof -
  have "map fst (tl (filterItems inst avail entries)) = sortBy (compareProviders inst) avail"
    using ids_filterItems [of inst avail entries] by (simp add: map_tl)
  then show ?thesis
    by (simp add: addonId_sections sortBy_compareProviders_order installedIndex_position
        filterItems_def)
qed

theorem installed_order_first_witness:
  "installedFirst
      [\<lparr>manifestId = js ''a'', manifestName = js ''A''\<rparr>,
       \<lparr>manifestId = js ''c'', manifestName = js ''C''\<rparr>]
      [js ''b'', js ''c'', js ''a'']
      (map addonId (sections
        [\<lparr>manifestId = js ''a'', manifestName = js ''A''\<rparr>,
         \<lparr>manifestId = js ''c'', manifestName = js ''C''\<rparr>]
        (js ''all'')
        [(js ''b'', \<lparr>addonName = js ''B'', streams = []\<rparr>),
         (js ''c'', \<lparr>addonName = js ''C'', streams = []\<rparr>),
         (js ''a'', \<lparr>addonName = js ''A'', streams = []\<rparr>)]))
   \<and> map addonId (sections
        [\<lparr>manifestId = js ''a'', manifestName = js ''A''\<rparr>,
         \<lparr>manifestId = js ''c'', manifestName = js ''C''\<rparr>]
        (js ''all'')
        [(js ''b'', \<lparr>addonName = js ''B'', streams = []\<rparr>),
         (js ''c'', \<lparr>addonName = js ''C'', streams = []\<rparr>),
         (js ''a'', \<lparr>addonName = js ''A'', streams = []\<rparr>)]) = [js ''a'', js ''c'', js ''b'']
   \<and> map fst (filterItems
        [\<lparr>manifestId = js ''a'', manifestName = js ''A''\<rparr>,
         \<lparr>manifestId = js ''c'', manifestName = js ''C''\<rparr>]
        [js ''b'', js ''c'', js ''a'']
        [(js ''b'', \<lparr>addonName = js ''B'', streams = []\<rparr>),
         (js ''c'', \<lparr>addonName = js ''C'', streams = []\<rparr>),
         (js ''a'', \<lparr>addonName = js ''A'', streams = []\<rparr>)])
       = [js ''all'', js ''a'', js ''c'', js ''b'']
   \<and> installedIndex
        [\<lparr>manifestId = js ''a'', manifestName = js ''A''\<rparr>,
         \<lparr>manifestId = js ''c'', manifestName = js ''C''\<rparr>] (js ''c'') = 1
   \<and> \<not> installedFirst
        [\<lparr>manifestId = js ''a'', manifestName = js ''A''\<rparr>,
         \<lparr>manifestId = js ''c'', manifestName = js ''C''\<rparr>]
        [js ''b'', js ''c'', js ''a''] [js ''c'', js ''a'', js ''b'']"
proof -
  let ?inst = "[\<lparr>manifestId = js ''a'', manifestName = js ''A''\<rparr>,
                \<lparr>manifestId = js ''c'', manifestName = js ''C''\<rparr>]"
  let ?entries = "[(js ''b'', \<lparr>addonName = js ''B'', streams = []\<rparr>),
                   (js ''c'', \<lparr>addonName = js ''C'', streams = []\<rparr>),
                   (js ''a'', \<lparr>addonName = js ''A'', streams = []\<rparr>)]"
  have s: "map addonId (sections ?inst (js ''all'') ?entries) = [js ''a'', js ''c'', js ''b'']"
    by (simp add: sections_def sortBy_def compareProviders_def toSection_def)
  have f: "map fst (filterItems ?inst [js ''b'', js ''c'', js ''a''] ?entries)
       = [js ''all'', js ''a'', js ''c'', js ''b'']"
    by (simp add: filterItems_def sortBy_def compareProviders_def)
  have i: "installedIndex ?inst (js ''c'') = 1"
    by (simp add: installedIndex_def)
  have n: "\<not> installedFirst ?inst [js ''b'', js ''c'', js ''a''] [js ''c'', js ''a'', js ''b'']"
    by (simp add: installedFirst_def presentIn_def positionIn_def)
  from installed_order_first [of ?inst "js ''all''" ?entries "[js ''b'', js ''c'', js ''a'']" "js ''c''"]
  have "installedFirst ?inst [js ''b'', js ''c'', js ''a'']
          (map addonId (sections ?inst (js ''all'') ?entries))"
    by simp
  with s f i n show ?thesis by simp
qed

end
